theory Spec2Isabelle
  imports Complex_Main "HOL-Library.Word" "HOL-Library.Monad_Syntax"
begin

unbundle bit_operations_syntax

section \<open>Data model of dssoundengine.cpp\<close>

text \<open>
  The sound engine of the emulation core (ARM9) keeps local channel state, writes the
  committed parameters into a block shared with the rendering core (ARM7) and sends
  32-bit messages through a FIFO. The header files (soundengine.h, common.h, gameboy.h)
  are not part of the sources at hand, so the declarations below follow the way
  dssoundengine.cpp uses each name:
  \<^item> C \<open>int\<close> fields are modelled as \<open>int\<close>; the sweep counter of channel 1, which
    its loop doubles, wraps around at 32 bits as the machine's \<open>int\<close> does (\<open>wrap32\<close>);
  \<^item> \<open>/\<close> on C integers truncates towards zero (\<open>c_div\<close>) and a division by zero is
    an abnormal end of the call (\<open>None\<close>);
  \<^item> arrays of four channels are functions from the index, only indices 0..3 are used;
  \<^item> a call that never returns (a loop that spins forever) has the value \<open>None\<close>.
\<close>

type_synonym u8 = "8 word"
type_synonym u32 = "32 word"

definition c_div :: "int \<Rightarrow> int \<Rightarrow> int" where
  "c_div a b = sgn a * sgn b * (\<bar>a\<bar> div \<bar>b\<bar>)"

text \<open>The value a 32-bit two's-complement \<open>int\<close> holds after an addition or subtraction
  whose exact result is \<open>x\<close>.\<close>

definition wrap32 :: "int \<Rightarrow> int" where
  "wrap32 x = (x + 2 ^ 31) mod 2 ^ 32 - 2 ^ 31"

text \<open>The block shared by both cores (struct SharedData, used through
  \<open>sharedData\<close>, \<open>dummySharedData\<close> and \<open>sharedPtr\<close>).\<close>

record SharedData =
  fifosSent :: int
  fifosReceived :: int
  chanOn :: u8
  chanDuty :: "nat \<Rightarrow> u8"
  chanRealVol :: "nat \<Rightarrow> int"
  chanRealFreq :: "nat \<Rightarrow> int"
  chanPan :: "nat \<Rightarrow> int"
  chanEnabled :: "nat \<Rightarrow> bool"
  volControl :: u8
  chanOutput :: u8
  lfsr7Bit :: u8
  message :: u32
  hyperSound_sd :: bool
  scaleTransferReady :: bool
  frameFlip_Gameboy :: bool
  frameFlip_DS :: bool
  dsCycles :: int
  cycles :: int
  sampleData_sd :: nat

text \<open>The CPU-model collaborator (class Gameboy): \<open>readIO\<close> reads \<open>ioRam\<close>;
  every call of \<open>clearSoundChannel\<close> is recorded with its argument.\<close>

record Gameboy =
  ioRam :: "nat \<Rightarrow> u8"
  cyclesSinceVBlank :: int
  doubleSpeed :: bool
  clearedChannels :: "u8 list"

text \<open>What \<open>sharedPtr\<close> points to: the real block or the dummy one.\<close>

datatype shared_ref = PtrSharedData | PtrDummySharedData

text \<open>Modelled from the spec: the rendering core's code is absent. While the emulation
  core spin-waits, the rendering core may acknowledge (set the shared cycle field back
  to the sentinel -1), raise the "interrupting transfer in progress" flag, advance the
  receive counter, or do nothing between two reads of the loop.\<close>

datatype arm7_event = Arm7_Ack | Arm7_ScaleTransfer | Arm7_Received | Arm7_Idle

text \<open>Constants of the absent headers, taken as parameters.\<close>

record params =
  clockSpeed :: int
  GBSND_UPDATE_COMMAND :: int
  GBSND_START_COMMAND :: int
  GBSND_VOLUME_COMMAND :: int
  GBSND_MASTER_VOLUME_COMMAND :: int
  GBSND_MUTE_COMMAND :: int
  GBSND_UNMUTE_COMMAND :: int
  sampleData_cached :: nat

text \<open>The members of SoundEngine, the globals it uses, and the outside world: the
  values handed to \<open>fifoSendValue32(FIFO_USER_01, _)\<close> in order, the lines given to
  \<open>printLog\<close>, and what the rendering core will do during spin-waits.\<close>

record state =
  chan1SweepTime :: int
  chan1SweepCounter :: int
  chan1SweepDir :: int
  chan1SweepAmount :: int
  chanLen :: "nat \<Rightarrow> int"
  chanLenCounter :: "nat \<Rightarrow> int"
  chanUseLen :: "nat \<Rightarrow> int"
  chanFreq :: "nat \<Rightarrow> int"
  chanVol :: "nat \<Rightarrow> int"
  chanEnvDir :: "nat \<Rightarrow> int"
  chanEnvCounter :: "nat \<Rightarrow> int"
  chanEnvSweep :: "nat \<Rightarrow> int"
  chan4FreqRatio :: rat
  pcmVals :: "nat \<Rightarrow> int"
  sampleData :: "nat \<Rightarrow> u8"
  muted :: bool
  sharedPtr :: shared_ref
  cyclesToSoundEvent :: int
  gameboy :: Gameboy
  soundDisabled :: bool
  hyperSound :: bool
  sharedData :: SharedData
  dummySharedData :: SharedData
  fifo :: "u32 list"
  printLog :: "string list"
  arm7 :: "arm7_event list"

text \<open>Reading and writing through \<open>sharedPtr\<close>.\<close>

definition sp :: "state \<Rightarrow> SharedData" where
  "sp s = (case sharedPtr s of PtrSharedData \<Rightarrow> sharedData s
                             | PtrDummySharedData \<Rightarrow> dummySharedData s)"

definition sp_update :: "(SharedData \<Rightarrow> SharedData) \<Rightarrow> state \<Rightarrow> state" where
  "sp_update f s = (case sharedPtr s of
       PtrSharedData \<Rightarrow> s\<lparr>sharedData := f (sharedData s)\<rparr>
     | PtrDummySharedData \<Rightarrow> s\<lparr>dummySharedData := f (dummySharedData s)\<rparr>)"

text \<open>Modelled from the spec: the channel constants of the absent header. Channel \<open>i\<close>
  is bit \<open>i\<close> of the channel-on bitmask; the source tests the same mask with \<open>1<<i\<close>.\<close>

definition CHAN_1 :: u8 where "CHAN_1 = 1"
definition CHAN_2 :: u8 where "CHAN_2 = 2"
definition CHAN_3 :: u8 where "CHAN_3 = 4"
definition CHAN_4 :: u8 where "CHAN_4 = 8"

definition readIO :: "Gameboy \<Rightarrow> nat \<Rightarrow> u8" where
  "readIO g r = ioRam g r"

text \<open>Modelled from the spec: \<open>Gameboy::clearSoundChannel\<close> is absent; the model records
  the deactivation signal for the given channel.\<close>

definition clearSoundChannel :: "u8 \<Rightarrow> state \<Rightarrow> state" where
  "clearSoundChannel c s =
     s\<lparr>gameboy := (gameboy s)\<lparr>clearedChannels := clearedChannels (gameboy s) @ [c]\<rparr>\<rparr>"

section \<open>The bounded message channel\<close>

definition MAX_FIFOS_WAITING :: int where
  "MAX_FIFOS_WAITING = 60"

definition FIFO_SEND :: "u32 \<Rightarrow> state \<Rightarrow> state" where
  "FIFO_SEND m s =
     (if fifosSent (sharedData s) - fifosReceived (sharedData s) < MAX_FIFOS_WAITING
      then s\<lparr>sharedData := (sharedData s)\<lparr>fifosSent := fifosSent (sharedData s) + 1\<rparr>,
             fifo := fifo s @ [m]\<rparr>
      else s\<lparr>printLog := printLog s @ [''Sound error'' @ [CHR 0x0A]]\<rparr>)"

definition muteSND :: "params \<Rightarrow> state \<Rightarrow> state" where
  "muteSND K s =
     s\<lparr>sharedData := (sharedData s)\<lparr>fifosSent := fifosSent (sharedData s) + 1\<rparr>,
       fifo := fifo s @ [word_of_int (push_bit 20 (GBSND_MUTE_COMMAND K))]\<rparr>"

definition unmuteSND :: "params \<Rightarrow> state \<Rightarrow> state" where
  "unmuteSND K s =
     s\<lparr>sharedData := (sharedData s)\<lparr>fifosSent := fifosSent (sharedData s) + 1\<rparr>,
       fifo := fifo s @ [word_of_int (push_bit 20 (GBSND_UNMUTE_COMMAND K))]\<rparr>"

definition enableChannel :: "nat \<Rightarrow> state \<Rightarrow> state" where
  "enableChannel i s =
     s\<lparr>sharedData := (sharedData s)\<lparr>chanEnabled := (chanEnabled (sharedData s))(i := True)\<rparr>\<rparr>"

definition disableChannel :: "nat \<Rightarrow> state \<Rightarrow> state" where
  "disableChannel i s =
     s\<lparr>sharedData := (sharedData s)\<lparr>chanEnabled := (chanEnabled (sharedData s))(i := False)\<rparr>\<rparr>"

text \<open>A run of sends with no acknowledgement in between.\<close>

fun send_all :: "u32 list \<Rightarrow> state \<Rightarrow> state" where
  "send_all [] s = s"
| "send_all (m # ms) s = send_all ms (FIFO_SEND m s)"

definition outstanding :: "state \<Rightarrow> int" where
  "outstanding s = fifosSent (sharedData s) - fifosReceived (sharedData s)"

section \<open>SoundEngine\<close>

definition mute :: "state \<Rightarrow> state" where
  "mute s = s\<lparr>muted := True, sharedPtr := PtrDummySharedData\<rparr>"

definition unmute :: "state \<Rightarrow> state" where
  "unmute s = s\<lparr>muted := False, sharedPtr := PtrSharedData\<rparr>"

definition setSoundEventCycles :: "int \<Rightarrow> state \<Rightarrow> state" where
  "setSoundEventCycles c s =
     (if cyclesToSoundEvent s > c then s\<lparr>cyclesToSoundEvent := c\<rparr> else s)"

subsection \<open>Cross-core synchronisation\<close>

definition arm7_step :: "arm7_event \<Rightarrow> SharedData \<Rightarrow> SharedData" where
  "arm7_step e d = (case e of
       Arm7_Ack \<Rightarrow> d\<lparr>cycles := - 1\<rparr>
     | Arm7_ScaleTransfer \<Rightarrow> d\<lparr>scaleTransferReady := True\<rparr>
     | Arm7_Received \<Rightarrow> d\<lparr>fifosReceived := fifosReceived d + 1\<rparr>
     | Arm7_Idle \<Rightarrow> d)"

text \<open>The spin-wait of \<open>synchronizeSound\<close>:
  \<^verbatim>\<open>while (sharedPtr->cycles != -1) { if (sharedPtr->scaleTransferReady) {
      sharedPtr->cycles = -1; goto sendByFifo; } }\<close>
  Between two rounds the rendering core makes its next step on the real block. When it
  has no step left and neither exit is open, the loop spins forever: \<open>None\<close>.\<close>

function wait_arm7 :: "state \<Rightarrow> state option" where
  "wait_arm7 s =
     (if cycles (sp s) \<noteq> - 1 then
        (if scaleTransferReady (sp s)
         then Some (FIFO_SEND (message (sp s)) (sp_update (\<lambda>d. d\<lparr>cycles := - 1\<rparr>) s))
         else (case arm7 s of
                 [] \<Rightarrow> None
               | e # es \<Rightarrow> wait_arm7 (s\<lparr>arm7 := es, sharedData := arm7_step e (sharedData s)\<rparr>)))
      else Some s)"
  by pat_completeness auto
termination
  by (relation "measure (\<lambda>s. length (arm7 s))") auto

text \<open>The local \<open>cycles\<close> of \<open>synchronizeSound\<close>: the cycles since the last frame
  boundary, halved under double speed.\<close>

definition syncCycles :: "state \<Rightarrow> int" where
  "syncCycles s =
     (if doubleSpeed (gameboy s) then c_div (cyclesSinceVBlank (gameboy s)) 2
      else cyclesSinceVBlank (gameboy s))"

definition synchronizeSound :: "state \<Rightarrow> state option" where
  "synchronizeSound s =
     (if muted s then Some s
      else if hyperSound_sd (sp s) \<and> \<not> scaleTransferReady (sp s) \<and>
              \<not> (frameFlip_Gameboy (sp s) \<noteq> frameFlip_DS (sp s) \<or> dsCycles (sp s) \<ge> syncCycles s)
           then wait_arm7 (sp_update (\<lambda>d. d\<lparr>cycles := syncCycles s\<rparr>) s)
           else Some (FIFO_SEND (message (sp s)) s))"

definition sendStartMessage :: "params \<Rightarrow> int \<Rightarrow> state \<Rightarrow> state option" where
  "sendStartMessage K i s =
     synchronizeSound
       (sp_update (\<lambda>d. d\<lparr>message := word_of_int (push_bit 20 (GBSND_START_COMMAND K) OR i)\<rparr>) s)"

definition sendUpdateMessage :: "params \<Rightarrow> int \<Rightarrow> state \<Rightarrow> state option" where
  "sendUpdateMessage K i s =
     (let j = (if i = - 1 then 4 else i) in
      synchronizeSound
        (sp_update (\<lambda>d. d\<lparr>message := word_of_int (push_bit 20 (GBSND_UPDATE_COMMAND K) OR j)\<rparr>) s))"

definition sendGlobalVolumeMessage :: "params \<Rightarrow> state \<Rightarrow> state option" where
  "sendGlobalVolumeMessage K s =
     synchronizeSound
       (sp_update (\<lambda>d. d\<lparr>message := word_of_int (push_bit 20 (GBSND_MASTER_VOLUME_COMMAND K))\<rparr>) s)"

subsection \<open>Committing parameters to the shared block\<close>

definition refreshSoundPan :: "nat \<Rightarrow> state \<Rightarrow> state" where
  "refreshSoundPan i s =
     (let out = chanOutput (sp s) in
      if out AND push_bit i 1 \<noteq> 0 \<and> out AND push_bit (i + 4) 1 \<noteq> 0
      then sp_update (\<lambda>d. d\<lparr>chanPan := (chanPan d)(i := 64)\<rparr>) s
      else if out AND push_bit i 1 \<noteq> 0
      then sp_update (\<lambda>d. d\<lparr>chanPan := (chanPan d)(i := 127)\<rparr>) s
      else if out AND push_bit (i + 4) 1 \<noteq> 0
      then sp_update (\<lambda>d. d\<lparr>chanPan := (chanPan d)(i := 0)\<rparr>) s
      else sp_update (\<lambda>d. d\<lparr>chanPan := (chanPan d)(i := 128)\<rparr>) s)"

text \<open>Modelled from the spec: the default of the parameter \<open>send\<close> is in the absent
  header; the envelope pass, which calls \<open>refreshSoundVolume(i)\<close>, only pushes the
  volume to the shared state, so the default is \<open>false\<close>.\<close>

definition refreshSoundVolume :: "params \<Rightarrow> nat \<Rightarrow> bool \<Rightarrow> state \<Rightarrow> state option" where
  "refreshSoundVolume K i send s =
     (if chanOn (sp s) AND push_bit i 1 = 0 \<or> \<not> chanEnabled (sp s) i then Some s
      else
        let volume = chanVol s i in
        if send \<and> chanRealVol (sp s) i \<noteq> volume
        then synchronizeSound
               (sp_update (\<lambda>d. d\<lparr>chanRealVol := (chanRealVol d)(i := volume),
                     message := word_of_int (push_bit 20 (GBSND_VOLUME_COMMAND K) OR int i)\<rparr>) s)
        else Some (sp_update (\<lambda>d. d\<lparr>chanRealVol := (chanRealVol d)(i := volume)\<rparr>) s))"

definition trunc_rat :: "rat \<Rightarrow> int" where
  "trunc_rat x = (if 0 \<le> x then \<lfloor>x\<rfloor> else \<lceil>x\<rceil>)"

definition refreshSoundFreq :: "nat \<Rightarrow> state \<Rightarrow> state option" where
  "refreshSoundFreq i s =
     (if i \<le> 1 then
        (if 2048 - chanFreq s i = 0 then None
         else Some (sp_update (\<lambda>d. d\<lparr>chanRealFreq :=
                (chanRealFreq d)(i := c_div 131072 (2048 - chanFreq s i) * 8)\<rparr>) s))
      else if i = 2 then
        (if 2048 - chanFreq s i = 0 then None
         else Some (sp_update (\<lambda>d. d\<lparr>chanRealFreq :=
                (chanRealFreq d)(i := c_div 65536 (2048 - chanFreq s i) * 32)\<rparr>) s))
      else if i = 3 then
        (if chan4FreqRatio s = 0 then None
         else Some (sp_update (\<lambda>d. d\<lparr>chanRealFreq :=
                (chanRealFreq d)(i := drop_bit (nat (chanFreq s i + 1))
                                       (trunc_rat (524288 / chan4FreqRatio s)))\<rparr>) s))
      else Some (sp_update (\<lambda>d. d\<lparr>chanRealFreq := (chanRealFreq d)(i := 0)\<rparr>) s))"

definition refreshSoundDuty :: "nat \<Rightarrow> state \<Rightarrow> state" where
  "refreshSoundDuty i s = s"

definition updateSoundSample :: "nat \<Rightarrow> state \<Rightarrow> state" where
  "updateSoundSample b s =
     (let sample = readIO (gameboy s) (0x30 + b) in
      s\<lparr>sampleData := (sampleData s)
           (b * 2 := word_of_int (pcmVals s (unat (drop_bit 4 sample))),
            b * 2 + 1 := word_of_int (pcmVals s (unat (sample AND 0xf))))\<rparr>)"

text \<open>\<open>clockSpeed/(128/chan1SweepTime)\<close>, with both divisions checked.\<close>

definition sweepPeriod :: "params \<Rightarrow> int \<Rightarrow> int option" where
  "sweepPeriod K t =
     (if t = 0 then None
      else if c_div 128 t = 0 then None
      else Some (c_div (clockSpeed K) (c_div 128 t)))"

subsection \<open>Statements\<close>

text \<open>A statement takes the state and returns the new one, or \<open>None\<close> when the call does
  not return. \<open>lift\<close> is an assignment, \<open>block\<close> a sequence of statements, \<open>ite\<close> a
  conditional whose condition reads the state.\<close>

type_synonym stmt = "state \<Rightarrow> state option"

definition lift :: "(state \<Rightarrow> state) \<Rightarrow> stmt" where
  "lift f s = Some (f s)"

fun block :: "stmt list \<Rightarrow> stmt" where
  "block [] s = Some s"
| "block (f # fs) s = f s \<bind> block fs"

definition ite :: "(state \<Rightarrow> bool) \<Rightarrow> stmt \<Rightarrow> stmt \<Rightarrow> stmt" where
  "ite b f g s = (if b s then f s else g s)"

subsection \<open>The register dispatcher: one definition per case of the switch\<close>

definition lenCounter64 :: "params \<Rightarrow> nat \<Rightarrow> state \<Rightarrow> int" where
  "lenCounter64 K i s = c_div ((64 - chanLen s i) * clockSpeed K) 256"

definition lenCounter256 :: "params \<Rightarrow> nat \<Rightarrow> state \<Rightarrow> int" where
  "lenCounter256 K i s = c_div ((256 - chanLen s i) * clockSpeed K) 256"

text \<open>\<open>if (chanUseLen[i]) setSoundEventCycles(chanLenCounter[i]);\<close>\<close>

definition lenEvent :: "nat \<Rightarrow> state \<Rightarrow> state" where
  "lenEvent i s = (if chanUseLen s i \<noteq> 0 then setSoundEventCycles (chanLenCounter s i) s else s)"

text \<open>\<open>if (chan1SweepTime != 0) { chan1SweepCounter = clockSpeed/(128/chan1SweepTime);
  setSoundEventCycles(chan1SweepCounter); }\<close>\<close>

definition sweepReload :: "params \<Rightarrow> stmt" where
  "sweepReload K s =
     (if chan1SweepTime s \<noteq> 0 then
        sweepPeriod K (chan1SweepTime s) \<bind>
          (\<lambda>p. Some (setSoundEventCycles p (s\<lparr>chan1SweepCounter := p\<rparr>)))
      else Some s)"

text \<open>\<open>chanUseLen[i] = (val & 0x40) ? 1 : 0\<close>\<close>

definition useLenWrite :: "nat \<Rightarrow> u8 \<Rightarrow> state \<Rightarrow> state" where
  "useLenWrite i val s = s\<lparr>chanUseLen := (chanUseLen s)(i := (if val AND 0x40 \<noteq> 0 then 1 else 0))\<rparr>"

definition reg_10 :: "params \<Rightarrow> u8 \<Rightarrow> stmt" where
  "reg_10 K val = block
     [lift (\<lambda>s. s\<lparr>chan1SweepTime := uint (drop_bit 4 val AND 0x7)\<rparr>),
      sweepReload K,
      lift (\<lambda>s. s\<lparr>chan1SweepDir := (if val AND 0x8 \<noteq> 0 then - 1 else 1)\<rparr>),
      lift (\<lambda>s. s\<lparr>chan1SweepAmount := uint (val AND 0x7)\<rparr>)]"

definition reg_11 :: "params \<Rightarrow> u8 \<Rightarrow> stmt" where
  "reg_11 K val = block
     [lift (\<lambda>s. s\<lparr>chanLen := (chanLen s)(0 := uint (val AND 0x3F))\<rparr>),
      lift (\<lambda>s. s\<lparr>chanLenCounter := (chanLenCounter s)(0 := lenCounter64 K 0 s)\<rparr>),
      lift (lenEvent 0),
      lift (sp_update (\<lambda>d. d\<lparr>chanDuty := (chanDuty d)(0 := drop_bit 6 val)\<rparr>)),
      lift (refreshSoundDuty 0),
      sendUpdateMessage K 0]"

text \<open>The envelope registers 0x12, 0x17 and 0x21 differ only in the channel.\<close>

definition envWrite :: "nat \<Rightarrow> u8 \<Rightarrow> state \<Rightarrow> state" where
  "envWrite i val s =
     s\<lparr>chanVol := (chanVol s)(i := uint (drop_bit 4 val)),
       chanEnvDir := (chanEnvDir s)(i := (if val AND 0x8 \<noteq> 0 then 1 else - 1)),
       chanEnvSweep := (chanEnvSweep s)(i := uint (val AND 0x7))\<rparr>"

definition reg_12 :: "params \<Rightarrow> u8 \<Rightarrow> stmt" where
  "reg_12 K val = block [lift (envWrite 0 val), refreshSoundVolume K 0 True]"

definition reg_13 :: "params \<Rightarrow> u8 \<Rightarrow> stmt" where
  "reg_13 K val = block
     [lift (\<lambda>s. s\<lparr>chanFreq := (chanFreq s)(0 := (chanFreq s 0 AND 0x700) OR uint val)\<rparr>),
      refreshSoundFreq 0,
      sendUpdateMessage K 0]"

definition reg_14 :: "params \<Rightarrow> u8 \<Rightarrow> stmt" where
  "reg_14 K val = block
     [lift (\<lambda>s. s\<lparr>chanFreq := (chanFreq s)
               (0 := (chanFreq s 0 AND 0xFF) OR push_bit 8 (uint (val AND 0x7)))\<rparr>),
      refreshSoundFreq 0,
      lift (useLenWrite 0 val),
      (if val AND 0x80 \<noteq> 0 then block
         [lift (\<lambda>s. s\<lparr>chanLenCounter := (chanLenCounter s)(0 := lenCounter64 K 0 s)\<rparr>),
          lift (lenEvent 0),
          lift (sp_update (\<lambda>d. d\<lparr>chanOn := chanOn d OR CHAN_1\<rparr>)),
          lift (\<lambda>s. s\<lparr>chanVol := (chanVol s)(0 := uint (drop_bit 4 (readIO (gameboy s) 0x12)))\<rparr>),
          sweepReload K,
          refreshSoundVolume K 0 False,
          sendStartMessage K 0]
       else sendUpdateMessage K 0)]"

definition reg_16 :: "params \<Rightarrow> u8 \<Rightarrow> stmt" where
  "reg_16 K val = block
     [lift (\<lambda>s. s\<lparr>chanLen := (chanLen s)(1 := uint (val AND 0x3F))\<rparr>),
      lift (\<lambda>s. s\<lparr>chanLenCounter := (chanLenCounter s)(1 := lenCounter64 K 1 s)\<rparr>),
      lift (lenEvent 1),
      lift (sp_update (\<lambda>d. d\<lparr>chanDuty := (chanDuty d)(1 := drop_bit 6 val)\<rparr>)),
      sendUpdateMessage K 1]"

definition reg_17 :: "params \<Rightarrow> u8 \<Rightarrow> stmt" where
  "reg_17 K val = block [lift (envWrite 1 val), refreshSoundVolume K 1 True]"

definition reg_18 :: "params \<Rightarrow> u8 \<Rightarrow> stmt" where
  "reg_18 K val = block
     [lift (\<lambda>s. s\<lparr>chanFreq := (chanFreq s)(1 := (chanFreq s 1 AND 0x700) OR uint val)\<rparr>),
      refreshSoundFreq 1,
      sendUpdateMessage K 1]"

definition reg_19 :: "params \<Rightarrow> u8 \<Rightarrow> stmt" where
  "reg_19 K val = block
     [lift (\<lambda>s. s\<lparr>chanFreq := (chanFreq s)
               (1 := (chanFreq s 1 AND 0xFF) OR push_bit 8 (uint (val AND 0x7)))\<rparr>),
      refreshSoundFreq 1,
      lift (useLenWrite 1 val),
      (if val AND 0x80 \<noteq> 0 then block
         [lift (\<lambda>s. s\<lparr>chanLenCounter := (chanLenCounter s)(1 := lenCounter64 K 1 s)\<rparr>),
          lift (lenEvent 1),
          lift (sp_update (\<lambda>d. d\<lparr>chanOn := chanOn d OR CHAN_2\<rparr>)),
          lift (\<lambda>s. s\<lparr>chanVol := (chanVol s)(1 := uint (drop_bit 4 (readIO (gameboy s) 0x17)))\<rparr>),
          refreshSoundVolume K 1 False,
          sendStartMessage K 1]
       else sendUpdateMessage K 1)]"

definition reg_1A :: "params \<Rightarrow> u8 \<Rightarrow> stmt" where
  "reg_1A K val =
     (if val AND 0x80 = 0 then block
        [lift (sp_update (\<lambda>d. d\<lparr>chanOn := chanOn d AND NOT CHAN_3\<rparr>)),
         sendUpdateMessage K 2]
      else block [])"

definition reg_1B :: "params \<Rightarrow> u8 \<Rightarrow> stmt" where
  "reg_1B K val = block
     [lift (\<lambda>s. s\<lparr>chanLen := (chanLen s)(2 := uint val)\<rparr>),
      lift (\<lambda>s. s\<lparr>chanLenCounter := (chanLenCounter s)(2 := lenCounter256 K 2 s)\<rparr>),
      lift (lenEvent 2)]"

text \<open>\<open>chanVol[2] = (val>>5)&3; switch(chanVol[2]) { case 0: break; case 1: chanVol[2] = 15;
  break; case 2: chanVol[2] = 15>>1; break; case 3: chanVol[2] = 15>>2; break; }\<close>\<close>

definition waveVolume :: "u8 \<Rightarrow> int" where
  "waveVolume val =
     (let v = uint (drop_bit 5 val AND 3) in
      if v = 0 then v
      else if v = 1 then 15
      else if v = 2 then drop_bit 1 15
      else if v = 3 then drop_bit 2 15
      else v)"

definition reg_1C :: "params \<Rightarrow> u8 \<Rightarrow> stmt" where
  "reg_1C K val = block
     [lift (\<lambda>s. s\<lparr>chanVol := (chanVol s)(2 := waveVolume val)\<rparr>),
      refreshSoundVolume K 2 True]"

definition reg_1D :: "params \<Rightarrow> u8 \<Rightarrow> stmt" where
  "reg_1D K val = block
     [lift (\<lambda>s. s\<lparr>chanFreq := (chanFreq s)(2 := (chanFreq s 2 AND 0xFF00) OR uint val)\<rparr>),
      refreshSoundFreq 2,
      sendUpdateMessage K 2]"

definition reg_1E :: "params \<Rightarrow> u8 \<Rightarrow> stmt" where
  "reg_1E K val = block
     [lift (\<lambda>s. s\<lparr>chanFreq := (chanFreq s)
               (2 := (chanFreq s 2 AND 0xFF) OR push_bit 8 (uint (val AND 7)))\<rparr>),
      refreshSoundFreq 2,
      lift (useLenWrite 2 val),
      ite (\<lambda>s. val AND 0x80 \<noteq> 0 \<and> readIO (gameboy s) 0x1a AND 0x80 \<noteq> 0)
        (block
          [lift (sp_update (\<lambda>d. d\<lparr>chanOn := chanOn d OR CHAN_3\<rparr>)),
           lift (\<lambda>s. s\<lparr>chanLenCounter := (chanLenCounter s)(2 := lenCounter256 K 2 s)\<rparr>),
           lift (lenEvent 2),
           refreshSoundVolume K 2 False,
           sendStartMessage K 2])
        (sendUpdateMessage K 2)]"

definition reg_20 :: "params \<Rightarrow> u8 \<Rightarrow> stmt" where
  "reg_20 K val = block
     [lift (\<lambda>s. s\<lparr>chanLen := (chanLen s)(3 := uint (val AND 0x3F))\<rparr>),
      lift (\<lambda>s. s\<lparr>chanLenCounter := (chanLenCounter s)(3 := lenCounter64 K 3 s)\<rparr>),
      lift (lenEvent 3)]"

definition reg_21 :: "params \<Rightarrow> u8 \<Rightarrow> stmt" where
  "reg_21 K val = block [lift (envWrite 3 val), refreshSoundVolume K 3 True]"

text \<open>\<open>chan4FreqRatio = val&0x7; if (chan4FreqRatio == 0) chan4FreqRatio = 0.5;\<close>\<close>

definition noiseRatio :: "u8 \<Rightarrow> rat" where
  "noiseRatio val = (if of_int (uint (val AND 0x7)) = (0 :: rat) then 1 / 2 else of_int (uint (val AND 0x7)))"

definition reg_22 :: "params \<Rightarrow> u8 \<Rightarrow> stmt" where
  "reg_22 K val = block
     [lift (\<lambda>s. s\<lparr>chanFreq := (chanFreq s)(3 := uint (drop_bit 4 val))\<rparr>),
      lift (\<lambda>s. s\<lparr>chan4FreqRatio := noiseRatio val\<rparr>),
      lift (sp_update (\<lambda>d. d\<lparr>lfsr7Bit := val AND 0x8\<rparr>)),
      refreshSoundFreq 3,
      sendUpdateMessage K 3]"

definition reg_23 :: "params \<Rightarrow> u8 \<Rightarrow> stmt" where
  "reg_23 K val = block
     [lift (useLenWrite 3 val),
      (if val AND 0x80 \<noteq> 0 then block
         [lift (\<lambda>s. s\<lparr>chanLenCounter := (chanLenCounter s)(3 := lenCounter64 K 3 s)\<rparr>),
          lift (lenEvent 3),
          lift (sp_update (\<lambda>d. d\<lparr>chanOn := chanOn d OR CHAN_4\<rparr>)),
          lift (\<lambda>s. s\<lparr>chanVol := (chanVol s)(3 := uint (drop_bit 4 (readIO (gameboy s) 0x21)))\<rparr>),
          refreshSoundVolume K 3 False,
          sendStartMessage K 3]
       else block [])]"

definition reg_24 :: "params \<Rightarrow> u8 \<Rightarrow> stmt" where
  "reg_24 K val =
     ite (\<lambda>s. volControl (sp s) AND 0x7 \<noteq> val AND 0x7)
       (block [lift (sp_update (\<lambda>d. d\<lparr>volControl := val\<rparr>)), sendGlobalVolumeMessage K])
       (lift (sp_update (\<lambda>d. d\<lparr>volControl := val\<rparr>)))"

definition reg_25 :: "params \<Rightarrow> u8 \<Rightarrow> stmt" where
  "reg_25 K val = block
     [lift (sp_update (\<lambda>d. d\<lparr>chanOutput := val\<rparr>)),
      lift (refreshSoundPan 0),
      lift (refreshSoundPan 1),
      lift (refreshSoundPan 2),
      lift (refreshSoundPan 3),
      sendUpdateMessage K (- 1),
      sendGlobalVolumeMessage K]"

definition reg_26 :: "params \<Rightarrow> u8 \<Rightarrow> stmt" where
  "reg_26 K val =
     (if val AND 0x80 = 0 then block
        [lift (sp_update (\<lambda>d. d\<lparr>chanOn := 0\<rparr>)),
         sendUpdateMessage K (- 1)]
      else block [])"

definition handleSoundRegister :: "params \<Rightarrow> u8 \<Rightarrow> u8 \<Rightarrow> stmt" where
  "handleSoundRegister K ioReg val =
     (if ioReg = 0x10 then reg_10 K val
      else if ioReg = 0x11 then reg_11 K val
      else if ioReg = 0x12 then reg_12 K val
      else if ioReg = 0x13 then reg_13 K val
      else if ioReg = 0x14 then reg_14 K val
      else if ioReg = 0x16 then reg_16 K val
      else if ioReg = 0x17 then reg_17 K val
      else if ioReg = 0x18 then reg_18 K val
      else if ioReg = 0x19 then reg_19 K val
      else if ioReg = 0x1A then reg_1A K val
      else if ioReg = 0x1B then reg_1B K val
      else if ioReg = 0x1C then reg_1C K val
      else if ioReg = 0x1D then reg_1D K val
      else if ioReg = 0x1E then reg_1E K val
      else if ioReg = 0x20 then reg_20 K val
      else if ioReg = 0x21 then reg_21 K val
      else if ioReg = 0x22 then reg_22 K val
      else if ioReg = 0x23 then reg_23 K val
      else if ioReg = 0x24 then reg_24 K val
      else if ioReg = 0x25 then reg_25 K val
      else if ioReg = 0x26 then reg_26 K val
      else if 0x30 \<le> ioReg \<and> ioReg \<le> 0x3F then lift (updateSoundSample (unat ioReg - 0x30))
      else block [])"

subsection \<open>The timing engine: updateSound\<close>

text \<open>One round of the sweep loop of channel 1 (index 0).\<close>

definition sweep_body :: "params \<Rightarrow> stmt" where
  "sweep_body K = block
     [(\<lambda>s. sweepPeriod K (chan1SweepTime s) \<bind>
            (\<lambda>p. Some (s\<lparr>chan1SweepCounter :=
                        wrap32 (chan1SweepCounter s + (p + chan1SweepCounter s))\<rparr>))),
      lift (\<lambda>s. s\<lparr>chanFreq := (chanFreq s)
               (0 := chanFreq s 0 +
                     drop_bit (nat (chan1SweepAmount s)) (chanFreq s 0) * chan1SweepDir s)\<rparr>),
      ite (\<lambda>s. chanFreq s 0 > 0x7FF)
        (block [lift (sp_update (\<lambda>d. d\<lparr>chanOn := chanOn d AND NOT CHAN_1\<rparr>)),
                lift (clearSoundChannel CHAN_1)])
        (refreshSoundFreq 0)]"

text \<open>\<open>while (chan1SweepCounter <= 0) { ...; changed = true; }\<close>\<close>

partial_function (option) sweep_loop :: "params \<Rightarrow> state \<Rightarrow> bool \<Rightarrow> (state \<times> bool) option" where
  "sweep_loop K s changed =
     (if chan1SweepCounter s \<le> 0
      then sweep_body K s \<bind> (\<lambda>s'. sweep_loop K s' True)
      else Some (s, changed))"

definition sweep_pass :: "params \<Rightarrow> int \<Rightarrow> state \<Rightarrow> bool \<Rightarrow> (state \<times> bool) option" where
  "sweep_pass K cyc s changed =
     (if chanOn (sp s) AND CHAN_1 \<noteq> 0 \<and> chan1SweepTime s \<noteq> 0 then
        sweep_loop K (s\<lparr>chan1SweepCounter := wrap32 (chan1SweepCounter s - cyc)\<rparr>) changed \<bind>
          (\<lambda>(s1, ch). Some (if chanOn (sp s1) AND CHAN_1 \<noteq> 0
                             then setSoundEventCycles (chan1SweepCounter s1) s1 else s1, ch))
      else Some (s, changed))"

text \<open>One round of the envelope loop of channel \<open>i\<close>.\<close>

definition env_body :: "params \<Rightarrow> nat \<Rightarrow> stmt" where
  "env_body K i = block
     [lift (\<lambda>s. s\<lparr>chanEnvCounter := (chanEnvCounter s)
               (i := chanEnvCounter s i + c_div (chanEnvSweep s i * clockSpeed K) 64)\<rparr>),
      lift (\<lambda>s. s\<lparr>chanVol := (chanVol s)(i := chanVol s i + chanEnvDir s i)\<rparr>),
      lift (\<lambda>s. if chanVol s i < 0 then s\<lparr>chanVol := (chanVol s)(i := 0)\<rparr> else s),
      lift (\<lambda>s. if chanVol s i > 0xF then s\<lparr>chanVol := (chanVol s)(i := 0xF)\<rparr> else s),
      refreshSoundVolume K i False]"

partial_function (option) env_loop :: "params \<Rightarrow> nat \<Rightarrow> state \<Rightarrow> bool \<Rightarrow> (state \<times> bool) option" where
  "env_loop K i s changed =
     (if chanEnvCounter s i \<le> 0
      then env_body K i s \<bind> (\<lambda>s'. env_loop K i s' True)
      else Some (s, changed))"

definition env_chan :: "params \<Rightarrow> int \<Rightarrow> nat \<Rightarrow> state \<Rightarrow> bool \<Rightarrow> (state \<times> bool) option" where
  "env_chan K cyc i s changed =
     (if i \<noteq> 2 \<and> chanOn (sp s) AND push_bit i 1 \<noteq> 0 then
        (if chanEnvSweep s i \<noteq> 0 then
           env_loop K i (s\<lparr>chanEnvCounter := (chanEnvCounter s)(i := chanEnvCounter s i - cyc)\<rparr>) changed \<bind>
             (\<lambda>(s1, ch). Some (if chanVol s1 i \<noteq> 0 \<and> chanVol s1 i \<noteq> 0xF
                                then setSoundEventCycles (chanEnvCounter s1 i) s1 else s1, ch))
         else Some (s, changed))
      else Some (s, changed))"

fun env_pass :: "params \<Rightarrow> int \<Rightarrow> nat list \<Rightarrow> state \<Rightarrow> bool \<Rightarrow> (state \<times> bool) option" where
  "env_pass K cyc [] s changed = Some (s, changed)"
| "env_pass K cyc (i # is) s changed =
     env_chan K cyc i s changed \<bind> (\<lambda>(s1, ch). env_pass K cyc is s1 ch)"

definition chanMask :: "nat \<Rightarrow> u8" where
  "chanMask i = (if i = 0 then CHAN_1 else if i = 1 then CHAN_2 else if i = 2 then CHAN_3 else CHAN_4)"

definition len_chan :: "int \<Rightarrow> nat \<Rightarrow> state \<Rightarrow> bool \<Rightarrow> state \<times> bool" where
  "len_chan cyc i s changed =
     (if chanOn (sp s) AND push_bit i 1 \<noteq> 0 \<and> chanUseLen s i \<noteq> 0 then
        (let s1 = s\<lparr>chanLenCounter := (chanLenCounter s)(i := chanLenCounter s i - cyc)\<rparr> in
         if chanLenCounter s1 i \<le> 0
         then (clearSoundChannel (chanMask i)
                 (sp_update (\<lambda>d. d\<lparr>chanOn := chanOn d AND NOT (push_bit i 1)\<rparr>) s1), True)
         else (setSoundEventCycles (chanLenCounter s1 i) s1, changed))
      else (s, changed))"

fun len_pass :: "int \<Rightarrow> nat list \<Rightarrow> state \<Rightarrow> bool \<Rightarrow> state \<times> bool" where
  "len_pass cyc [] s changed = (s, changed)"
| "len_pass cyc (i # is) s changed =
     (case len_chan cyc i s changed of (s1, ch) \<Rightarrow> len_pass cyc is s1 ch)"

text \<open>The end of \<open>updateSound\<close>: \<open>if (changed) { ... }\<close>.\<close>

definition notifyChanged :: "params \<Rightarrow> state \<Rightarrow> bool \<Rightarrow> state option" where
  "notifyChanged K s changed =
     (if changed then
        (if hyperSound s then sendUpdateMessage K (- 1) s
         else if muted s then Some s
         else Some (FIFO_SEND (word_of_int (push_bit 28 (GBSND_UPDATE_COMMAND K) OR 4)) s))
      else Some s)"

definition updateSound :: "params \<Rightarrow> int \<Rightarrow> stmt" where
  "updateSound K cyc s =
     (if soundDisabled s then Some s
      else
        sweep_pass K cyc s False \<bind> (\<lambda>(s1, c1).
        env_pass K cyc [0, 1, 2, 3] s1 c1 \<bind> (\<lambda>(s2, c2).
        case len_pass cyc [0, 1, 2, 3] s2 c2 of (s3, c3) \<Rightarrow> notifyChanged K s3 c3)))"

subsection \<open>refresh: the bulk resynchronisation\<close>

definition triggerReg :: "u8 \<Rightarrow> bool" where
  "triggerReg i = (i = 0x14 \<or> i = 0x19 \<or> i = 0x1e \<or> i = 0x23)"

text \<open>The body of \<open>for (int i=0x10; i<=0x3F; i++)\<close>.\<close>

definition replay_reg :: "params \<Rightarrow> u8 \<Rightarrow> stmt" where
  "replay_reg K i s =
     (if triggerReg i
      then handleSoundRegister K i (readIO (gameboy s) (unat i) AND NOT 0x80) s
      else handleSoundRegister K i (readIO (gameboy s) (unat i)) s)"

fun replay :: "params \<Rightarrow> u8 list \<Rightarrow> stmt" where
  "replay K [] s = Some s"
| "replay K (i # is) s = replay_reg K i s \<bind> replay K is"

definition soundRegs :: "u8 list" where
  "soundRegs = map of_nat [0x10 ..< 0x40]"

text \<open>\<open>if (gameboy->readIO(0x26) & m) handleSoundRegister(r, gameboy->readIO(r)|0x80);\<close>\<close>

definition retrigger :: "params \<Rightarrow> u8 \<Rightarrow> u8 \<Rightarrow> stmt" where
  "retrigger K m r s =
     (if readIO (gameboy s) 0x26 AND m \<noteq> 0
      then handleSoundRegister K r (readIO (gameboy s) (unat r) OR 0x80) s
      else Some s)"

text \<open>\<open>soundEnable()\<close> belongs to the platform library and touches nothing of the
  engine; \<open>refresh\<close> goes on with \<open>unmute()\<close>.\<close>

definition refresh :: "params \<Rightarrow> stmt" where
  "refresh K = block
     [lift unmute,
      ite soundDisabled (block [])
        (block
          [lift (sp_update (\<lambda>d. d\<lparr>sampleData_sd := sampleData_cached K\<rparr>)),
           lift (sp_update (\<lambda>d. d\<lparr>chanOn := 0\<rparr>)),
           (\<lambda>s. handleSoundRegister K 0x26 (readIO (gameboy s) 0x26) s),
           replay K soundRegs,
           retrigger K 1 0x14,
           retrigger K 2 0x19,
           retrigger K 4 0x1e,
           retrigger K 8 0x23])]"

subsection \<open>Runs of the engine\<close>

datatype op = Advance int | Write u8 u8

definition step :: "params \<Rightarrow> op \<Rightarrow> state \<Rightarrow> state option" where
  "step K x s = (case x of Advance cyc \<Rightarrow> updateSound K cyc s
                          | Write r v \<Rightarrow> handleSoundRegister K r v s)"

fun run :: "params \<Rightarrow> op list \<Rightarrow> state \<Rightarrow> state option" where
  "run K [] s = Some s"
| "run K (x # xs) s = step K x s \<bind> run K xs"

section \<open>Views and invariants\<close>

text \<open>The local channel fields of the engine, its configuration, and the fields of a shared
  block that only the emulation core writes.\<close>

definition locals where
  "locals s = (chan1SweepTime s, chan1SweepCounter s, chan1SweepDir s, chan1SweepAmount s,
     chanLen s, chanLenCounter s, chanUseLen s, chanFreq s, chanVol s, chanEnvDir s,
     chanEnvCounter s, chanEnvSweep s, chan4FreqRatio s, pcmVals s, sampleData s,
     cyclesToSoundEvent s)"

definition config where
  "config s = (muted s, sharedPtr s, gameboy s, soundDisabled s, hyperSound s)"

definition committed where
  "committed d = (chanOn d, chanDuty d, chanRealVol d, chanRealFreq d, chanPan d,
     chanEnabled d, volControl d, chanOutput d, lfsr7Bit d, message d, sampleData_sd d,
     hyperSound_sd d, frameFlip_Gameboy d, frameFlip_DS d, dsCycles d)"

text \<open>\<open>frames f\<close>: statement \<open>f\<close> changes neither the local fields, nor the
  configuration, nor the channel-on bitmask, nor the accurate-sync flag of the block. \<open>pres I f\<close>: \<open>f\<close> preserves \<open>I\<close>.\<close>

definition view where
  "view s = (locals s, config s, chanOn (sp s), hyperSound_sd (sp s))"

definition frames :: "stmt \<Rightarrow> bool" where
  "frames f = (\<forall>s s'. f s = Some s' \<longrightarrow> view s' = view s)"

definition pres :: "(state \<Rightarrow> bool) \<Rightarrow> stmt \<Rightarrow> bool" where
  "pres I f = (\<forall>s s'. I s \<longrightarrow> f s = Some s' \<longrightarrow> I s')"

definition vols_ok :: "state \<Rightarrow> bool" where
  "vols_ok s = (\<forall>i. 0 \<le> chanVol s i \<and> chanVol s i \<le> 15)"

text \<open>\<open>Off m\<close>: every channel of the mask \<open>m\<close> is off. \<open>starts r v\<close>: the channel
  that the write of \<open>v\<close> to register \<open>r\<close> may start.\<close>

definition Off :: "u8 \<Rightarrow> state \<Rightarrow> bool" where
  "Off m s = (chanOn (sp s) AND m = 0)"

definition starts :: "u8 \<Rightarrow> u8 \<Rightarrow> u8" where
  "starts r v =
     (if v AND 0x80 = 0 then 0
      else if r = 0x14 then CHAN_1
      else if r = 0x19 then CHAN_2
      else if r = 0x1E then CHAN_3
      else if r = 0x23 then CHAN_4
      else 0)"

section \<open>Concrete states for evaluation\<close>

definition shared0 :: SharedData where
  "shared0 = \<lparr>fifosSent = 0, fifosReceived = 0, chanOn = 0, chanDuty = (\<lambda>_. 0),
     chanRealVol = (\<lambda>_. 0), chanRealFreq = (\<lambda>_. 0), chanPan = (\<lambda>_. 0),
     chanEnabled = (\<lambda>_. True), volControl = 0, chanOutput = 0, lfsr7Bit = 0, message = 0,
     hyperSound_sd = False, scaleTransferReady = False, frameFlip_Gameboy = False,
     frameFlip_DS = False, dsCycles = 0, cycles = - 1, sampleData_sd = 0\<rparr>"

definition gameboy0 :: Gameboy where
  "gameboy0 = \<lparr>ioRam = (\<lambda>_. 0), cyclesSinceVBlank = 0, doubleSpeed = False, clearedChannels = []\<rparr>"

definition state0 :: state where
  "state0 = \<lparr>chan1SweepTime = 0, chan1SweepCounter = 0, chan1SweepDir = 0, chan1SweepAmount = 0,
     chanLen = (\<lambda>_. 0), chanLenCounter = (\<lambda>_. 0), chanUseLen = (\<lambda>_. 0), chanFreq = (\<lambda>_. 0),
     chanVol = (\<lambda>_. 0), chanEnvDir = (\<lambda>_. 0), chanEnvCounter = (\<lambda>_. 0), chanEnvSweep = (\<lambda>_. 0),
     chan4FreqRatio = 0, pcmVals = (\<lambda>_. 0), sampleData = (\<lambda>_. 0), muted = False,
     sharedPtr = PtrSharedData, cyclesToSoundEvent = 0, gameboy = gameboy0,
     soundDisabled = False, hyperSound = False, sharedData = shared0, dummySharedData = shared0,
     fifo = [], printLog = [], arm7 = []\<rparr>"

definition K0 :: params where
  "K0 = \<lparr>clockSpeed = 4194304, GBSND_UPDATE_COMMAND = 0, GBSND_START_COMMAND = 1,
     GBSND_VOLUME_COMMAND = 2, GBSND_MASTER_VOLUME_COMMAND = 3, GBSND_MUTE_COMMAND = 5,
     GBSND_UNMUTE_COMMAND = 6, sampleData_cached = 0\<rparr>"

definition waiting :: "int \<Rightarrow> state" where
  "waiting n = state0\<lparr>sharedData := shared0\<lparr>fifosSent := n\<rparr>\<rparr>"

definition state_env :: state where
  "state_env = state0\<lparr>gameboy := gameboy0\<lparr>ioRam := (\<lambda>_. 0)(0x12 := 0xF1)\<rparr>\<rparr>"

definition ops_env :: "op list" where
  "ops_env = [Write 0x12 0xF1, Write 0x14 0x80, Advance 70000]"

text \<open>\<open>retriggers m x\<close>: the operation \<open>x\<close> is a register write that may start a channel
  of the mask \<open>m\<close>. \<open>signals i s\<close>: the deactivation signals sent so far for channel \<open>i\<close>.\<close>

definition retriggers :: "u8 \<Rightarrow> op \<Rightarrow> bool" where
  "retriggers m x = (case x of Advance c \<Rightarrow> False | Write r v \<Rightarrow> starts r v AND m \<noteq> 0)"



definition sweep_next :: "state \<Rightarrow> int" where
  "sweep_next s = chanFreq s 0 + drop_bit (nat (chan1SweepAmount s)) (chanFreq s 0) * chan1SweepDir s"







text \<open>\<open>Ready s\<close>: the engine is muted or works in best-effort mode, and the local fields a
  register write divides by are in the range the dispatcher itself keeps them in.
  \<open>total I f\<close>: statement \<open>f\<close> returns from every state of \<open>I\<close>.\<close>

definition Ready :: "state \<Rightarrow> bool" where
  "Ready s = ((muted s \<or> \<not> hyperSound_sd (sp s)) \<and>
     0 \<le> chan1SweepTime s \<and> chan1SweepTime s \<le> 7 \<and>
     0 \<le> chanFreq s 2 \<and> chanFreq s 2 \<le> 0x7FF)"

definition total :: "(state \<Rightarrow> bool) \<Rightarrow> stmt \<Rightarrow> bool" where
  "total I f = (\<forall>s. I s \<longrightarrow> f s \<noteq> None)"

text \<open>The frequency-high/trigger register and the envelope register of channel \<open>i\<close>.\<close>

definition trigReg :: "nat \<Rightarrow> u8" where
  "trigReg i = (if i = 0 then 0x14 else if i = 1 then 0x19 else if i = 2 then 0x1E else 0x23)"

definition envReg :: "nat \<Rightarrow> nat" where
  "envReg i = (if i = 0 then 0x12 else if i = 1 then 0x17 else 0x21)"


text \<open>The global Update message.\<close>

definition updateAll :: "params \<Rightarrow> u32" where
  "updateAll K = word_of_int (push_bit 20 (GBSND_UPDATE_COMMAND K) OR 4)"

text \<open>A muted engine in cycle-accurate mode (the flag is set globally and in both
  blocks) whose frame-flip flags differ.\<close>

definition state_muted :: state where
  "state_muted = mute (state0\<lparr>hyperSound := True,
     sharedData :=
       shared0\<lparr>hyperSound_sd := True, frameFlip_Gameboy := True, message := 0x100000\<rparr>,
     dummySharedData :=
       shared0\<lparr>hyperSound_sd := True, frameFlip_Gameboy := True, message := 0x100000\<rparr>\<rparr>)"

text \<open>An engine in cycle-accurate mode that has to wait: the rendering core idles twice
  and then raises the transfer flag.\<close>

definition state_wait :: state where
  "state_wait = state0\<lparr>sharedData :=
       shared0\<lparr>hyperSound_sd := True, message := 0x100001, dsCycles := 10\<rparr>,
     gameboy := gameboy0\<lparr>cyclesSinceVBlank := 500\<rparr>,
     arm7 := [Arm7_Idle, Arm7_Idle, Arm7_ScaleTransfer, Arm7_Ack]\<rparr>"

text \<open>The condition under which \<open>synchronizeSound\<close> takes the cycle-wait.\<close>

definition waits :: "state \<Rightarrow> bool" where
  "waits s \<longleftrightarrow> \<not> muted s \<and> hyperSound_sd (sp s) \<and> \<not> scaleTransferReady (sp s) \<and>
     frameFlip_Gameboy (sp s) = frameFlip_DS (sp s) \<and> dsCycles (sp s) < syncCycles s"

text \<open>The writes of the replay loop over the registers \<open>rs\<close>, of the four conditional
  trigger writes, and of the whole resynchronisation, for the register file of \<open>g\<close>.\<close>

definition replay_ops :: "Gameboy \<Rightarrow> u8 list \<Rightarrow> op list" where
  "replay_ops g rs = map (\<lambda>i. Write i (if triggerReg i then readIO g (unat i) AND NOT 0x80
                                          else readIO g (unat i))) rs"

definition retrigger_ops :: "Gameboy \<Rightarrow> op list" where
  "retrigger_ops g = concat (map (\<lambda>i.
       if readIO g 0x26 AND chanMask i \<noteq> 0
       then [Write (trigReg i) (readIO g (unat (trigReg i)) OR 0x80)] else []) [0, 1, 2, 3])"

definition resync_ops :: "Gameboy \<Rightarrow> op list" where
  "resync_ops g = Write 0x26 (readIO g 0x26) # replay_ops g soundRegs @ retrigger_ops g"

text \<open>\<open>wanted g i\<close>: the register file \<open>g\<close> asks for channel \<open>i\<close> to be restarted
  by \<open>refresh\<close>.\<close>

definition wanted :: "Gameboy \<Rightarrow> nat \<Rightarrow> bool" where
  "wanted g i = (readIO g 0x26 AND chanMask i \<noteq> 0 \<and> (i = 2 \<longrightarrow> readIO g 0x1a AND 0x80 \<noteq> 0))"

definition is_write :: "op \<Rightarrow> bool" where
  "is_write x = (case x of Advance c \<Rightarrow> False | Write r v \<Rightarrow> True)"

text \<open>The register file says that channel 2 is on and holds a length for it; the engine
  has channel 1 on and no length.\<close>

definition state_refresh :: state where
  "state_refresh = state0\<lparr>gameboy := gameboy0\<lparr>ioRam := (\<lambda>_. 0)(0x26 := 0x82, 0x16 := 0x3F)\<rparr>,
     sharedData := shared0\<lparr>chanOn := 1\<rparr>\<rparr>"

text \<open>\<open>agrees K g f xs\<close>: on every state with the register file \<open>g\<close>, statement \<open>f\<close> is
  the run of the operations \<open>xs\<close> and leaves the register file as it is.\<close>

definition agrees :: "params \<Rightarrow> Gameboy \<Rightarrow> stmt \<Rightarrow> op list \<Rightarrow> bool" where
  "agrees K g f xs = (\<forall>t. gameboy t = g \<longrightarrow>
     f t = run K xs t \<and> (\<forall>t'. f t = Some t' \<longrightarrow> gameboy t' = g))"


definition alike :: "state \<Rightarrow> state \<Rightarrow> bool" where
  "alike s t = (locals s = locals t \<and> gameboy s = gameboy t)"




text \<open>\<open>fits K\<close>: the clock speed is a positive 32-bit \<open>int\<close> of at least 128, as the
  hardware's is. \<open>envs_ok s\<close>: no envelope period is negative. \<open>Sane s\<close>: the state is
  \<open>Ready\<close> and its envelope periods are not negative. \<open>stalls K cyc s\<close>: the sweep of
  channel 1 is due and its counter, after \<open>cyc\<close> cycles, is the negated sweep period, the
  fixed point of \<open>counter += period + counter\<close>.\<close>

definition fits :: "params \<Rightarrow> bool" where
  "fits K = (128 \<le> clockSpeed K \<and> clockSpeed K < 2 ^ 31)"

definition envs_ok :: "state \<Rightarrow> bool" where
  "envs_ok s = (\<forall>i. 0 \<le> chanEnvSweep s i)"

definition Sane :: "state \<Rightarrow> bool" where
  "Sane s = (Ready s \<and> envs_ok s)"

definition stalls :: "params \<Rightarrow> int \<Rightarrow> state \<Rightarrow> bool" where
  "stalls K cyc s = (\<not> soundDisabled s \<and> chanOn (sp s) AND CHAN_1 \<noteq> 0 \<and> chan1SweepTime s \<noteq> 0 \<and>
     (case sweepPeriod K (chan1SweepTime s) of
        None \<Rightarrow> False
      | Some p \<Rightarrow> (chan1SweepCounter s - cyc + p) mod 2 ^ 32 = 0))"

section \<open>Properties\<close>

subsection \<open>Reading and writing through the shared pointer\<close>

lemma sp_sp_update [simp]: "sp (sp_update f s) = f (sp s)"
  by (cases "sharedPtr s") (simp_all add: sp_def sp_update_def)

lemma sp_field_update [simp]:
  "sp (chan1SweepTime_update g0 s) = sp s"
  "sp (chan1SweepCounter_update g1 s) = sp s"
  "sp (chan1SweepDir_update g2 s) = sp s"
  "sp (chan1SweepAmount_update g3 s) = sp s"
  "sp (chanLen_update g4 s) = sp s"
  "sp (chanLenCounter_update g5 s) = sp s"
  "sp (chanUseLen_update g6 s) = sp s"
  "sp (chanFreq_update g7 s) = sp s"
  "sp (chanVol_update g8 s) = sp s"
  "sp (chanEnvDir_update g9 s) = sp s"
  "sp (chanEnvCounter_update g10 s) = sp s"
  "sp (chanEnvSweep_update g11 s) = sp s"
  "sp (chan4FreqRatio_update g12 s) = sp s"
  "sp (pcmVals_update g13 s) = sp s"
  "sp (sampleData_update g14 s) = sp s"
  "sp (muted_update g15 s) = sp s"
  "sp (cyclesToSoundEvent_update g17 s) = sp s"
  "sp (gameboy_update g18 s) = sp s"
  "sp (soundDisabled_update g19 s) = sp s"
  "sp (hyperSound_update g20 s) = sp s"
  "sp (fifo_update g23 s) = sp s"
  "sp (printLog_update g24 s) = sp s"
  "sp (arm7_update g25 s) = sp s"
  by (simp_all add: sp_def split: shared_ref.splits)

lemma field_sp_update [simp]:
  "chan1SweepTime (sp_update f s) = chan1SweepTime s"
  "chan1SweepCounter (sp_update f s) = chan1SweepCounter s"
  "chan1SweepDir (sp_update f s) = chan1SweepDir s"
  "chan1SweepAmount (sp_update f s) = chan1SweepAmount s"
  "chanLen (sp_update f s) = chanLen s"
  "chanLenCounter (sp_update f s) = chanLenCounter s"
  "chanUseLen (sp_update f s) = chanUseLen s"
  "chanFreq (sp_update f s) = chanFreq s"
  "chanVol (sp_update f s) = chanVol s"
  "chanEnvDir (sp_update f s) = chanEnvDir s"
  "chanEnvCounter (sp_update f s) = chanEnvCounter s"
  "chanEnvSweep (sp_update f s) = chanEnvSweep s"
  "chan4FreqRatio (sp_update f s) = chan4FreqRatio s"
  "pcmVals (sp_update f s) = pcmVals s"
  "sampleData (sp_update f s) = sampleData s"
  "muted (sp_update f s) = muted s"
  "sharedPtr (sp_update f s) = sharedPtr s"
  "cyclesToSoundEvent (sp_update f s) = cyclesToSoundEvent s"
  "gameboy (sp_update f s) = gameboy s"
  "soundDisabled (sp_update f s) = soundDisabled s"
  "hyperSound (sp_update f s) = hyperSound s"
  "fifo (sp_update f s) = fifo s"
  "printLog (sp_update f s) = printLog s"
  "arm7 (sp_update f s) = arm7 s"
  by (simp_all add: sp_update_def split: shared_ref.splits)

lemma sp_update_views [simp]:
  "locals (sp_update f s) = locals s" "config (sp_update f s) = config s"
  by (simp_all add: locals_def config_def)

declare wait_arm7.simps [simp del]

lemma committed_arm7_step: "committed (arm7_step e d) = committed d"
  by (cases e) (simp_all add: arm7_step_def committed_def)

lemma FIFO_SEND_frame:
  "locals (FIFO_SEND m s) = locals s" "config (FIFO_SEND m s) = config s"
  "committed (sharedData (FIFO_SEND m s)) = committed (sharedData s)"
  "dummySharedData (FIFO_SEND m s) = dummySharedData s"
  "arm7 (FIFO_SEND m s) = arm7 s"
  by (simp_all add: FIFO_SEND_def locals_def config_def committed_def)

lemma wait_arm7_frame:
  "wait_arm7 s = Some s' \<Longrightarrow>
   locals s' = locals s \<and> config s' = config s \<and>
   committed (sharedData s') = committed (sharedData s) \<and>
   committed (dummySharedData s') = committed (dummySharedData s)"
proof (induction s rule: wait_arm7.induct)
  case (1 s)
  show ?case
  proof (cases "cycles (sp s) \<noteq> - 1")
    case False
    with "1.prems" show ?thesis by (simp add: wait_arm7.simps [of s])
  next
    case True
    note c = True
    show ?thesis
    proof (cases "scaleTransferReady (sp s)")
      case True
      with c "1.prems" have "s' = FIFO_SEND (message (sp s)) (sp_update (\<lambda>d. d\<lparr>cycles := - 1\<rparr>) s)"
        by (simp add: wait_arm7.simps [of s])
      then show ?thesis
        by (cases "sharedPtr s")
           (simp_all add: FIFO_SEND_frame sp_update_def, simp_all add: locals_def config_def committed_def)
    next
      case False
      show ?thesis
      proof (cases "arm7 s")
        case Nil
        with c False "1.prems" show ?thesis by (simp add: wait_arm7.simps [of s])
      next
        case (Cons e es)
        with c False "1.prems"
        have "wait_arm7 (s\<lparr>arm7 := es, sharedData := arm7_step e (sharedData s)\<rparr>) = Some s'"
          by (simp add: wait_arm7.simps [of s])
        from "1.IH" [OF c False Cons this] show ?thesis
          by (simp add: committed_arm7_step) (simp add: locals_def config_def)
      qed
    qed
  qed
qed

lemma sp_update_cycles_committed:
  "committed (sharedData (sp_update (\<lambda>d. d\<lparr>cycles := c\<rparr>) s)) = committed (sharedData s)"
  "committed (dummySharedData (sp_update (\<lambda>d. d\<lparr>cycles := c\<rparr>) s)) = committed (dummySharedData s)"
  by (cases "sharedPtr s", simp_all add: sp_update_def committed_def)+

lemma synchronizeSound_Some:
  "synchronizeSound s = Some s' \<Longrightarrow>
   (muted s \<and> s' = s) \<or>
   (\<not> muted s \<and> wait_arm7 (sp_update (\<lambda>d. d\<lparr>cycles := syncCycles s\<rparr>) s) = Some s') \<or>
   (\<not> muted s \<and> s' = FIFO_SEND (message (sp s)) s)"
  by (simp add: synchronizeSound_def split: if_splits)

lemma synchronizeSound_frame:
  assumes "synchronizeSound s = Some s'"
  shows "locals s' = locals s \<and> config s' = config s \<and>
   committed (sharedData s') = committed (sharedData s) \<and>
   committed (dummySharedData s') = committed (dummySharedData s)"
proof -
  from synchronizeSound_Some [OF assms]
  consider "s' = s"
    | "wait_arm7 (sp_update (\<lambda>d. d\<lparr>cycles := syncCycles s\<rparr>) s) = Some s'"
    | "s' = FIFO_SEND (message (sp s)) s"
    by blast
  then show ?thesis
  proof cases
    case 1
    then show ?thesis by simp
  next
    case 2
    from wait_arm7_frame [OF 2] show ?thesis
      by (simp add: sp_update_cycles_committed)
  next
    case 3
    then show ?thesis by (simp add: FIFO_SEND_frame)
  qed
qed


lemma committed_sp:
  "config s' = config s \<Longrightarrow> committed (sharedData s') = committed (sharedData s) \<Longrightarrow>
   committed (dummySharedData s') = committed (dummySharedData s) \<Longrightarrow>
   committed (sp s') = committed (sp s)"
  by (cases "sharedPtr s") (simp_all add: sp_def config_def)

lemma synchronizeSound_sp:
  assumes "synchronizeSound s = Some s'"
  shows "locals s' = locals s" "config s' = config s" "committed (sp s') = committed (sp s)"
  using synchronizeSound_frame [OF assms] committed_sp [of s' s] by simp_all



lemma synchronizeSound_view:
  assumes "synchronizeSound (sp_update f s) = Some s'" "chanOn (f (sp s)) = chanOn (sp s)"
    "hyperSound_sd (f (sp s)) = hyperSound_sd (sp s)"
  shows "view s' = view s"
  using synchronizeSound_sp [OF assms(1)] assms(2,3)
  by (simp add: view_def committed_def)

lemma frames_sync [simp]:
  "frames (sendStartMessage K i)" "frames (sendUpdateMessage K i)" "frames (sendGlobalVolumeMessage K)"
  unfolding frames_def sendStartMessage_def sendUpdateMessage_def sendGlobalVolumeMessage_def Let_def
  by (intro allI impI, erule synchronizeSound_view, simp, simp)+

lemma frames_refreshSoundFreq [simp]: "frames (refreshSoundFreq i)"
  by (auto simp: frames_def refreshSoundFreq_def view_def split: if_splits)

lemma frames_refreshSoundVolume [simp]: "frames (refreshSoundVolume K i send)"
  unfolding frames_def
proof (intro allI impI)
  fix s s'
  assume a: "refreshSoundVolume K i send s = Some s'"
  show "view s' = view s"
  proof (cases "chanOn (sp s) AND push_bit i 1 = 0 \<or> \<not> chanEnabled (sp s) i")
    case True
    with a show ?thesis by (simp add: refreshSoundVolume_def)
  next
    case False
    note f = False
    show ?thesis
    proof (cases "send \<and> chanRealVol (sp s) i \<noteq> chanVol s i")
      case True
      with f a have "synchronizeSound
               (sp_update (\<lambda>d. d\<lparr>chanRealVol := (chanRealVol d)(i := chanVol s i),
                     message := word_of_int (push_bit 20 (GBSND_VOLUME_COMMAND K) OR int i)\<rparr>) s) = Some s'"
        by (simp add: refreshSoundVolume_def Let_def)
      from synchronizeSound_view [OF this] show ?thesis by simp
    next
      case False
      with f a show ?thesis by (auto simp add: refreshSoundVolume_def Let_def view_def)
    qed
  qed
qed

lemma pres_of_frames:
  assumes v: "\<And>s s'. view s' = view s \<Longrightarrow> I s \<Longrightarrow> I s'" and f: "frames f"
  shows "pres I f"
  unfolding pres_def
proof (intro allI impI)
  fix s s'
  assume i: "I s" and r: "f s = Some s'"
  from f r have "view s' = view s" unfolding frames_def by simp
  from v [OF this i] show "I s'" .
qed

lemma pres_lift: "(\<And>s. I s \<Longrightarrow> I (f s)) \<Longrightarrow> pres I (lift f)"
  unfolding pres_def lift_def by blast

lemma pres_block_Nil: "pres I (block [])"
  unfolding pres_def by simp

lemma pres_block_Cons:
  assumes "pres I f" "pres I (block fs)"
  shows "pres I (block (f # fs))"
  unfolding pres_def
proof (intro allI impI)
  fix s s'
  assume i: "I s" and r: "block (f # fs) s = Some s'"
  from r obtain s1 where 1: "f s = Some s1" and 2: "block fs s1 = Some s'"
    by (auto simp: bind_eq_Some_conv)
  from assms(1) i 1 have "I s1" unfolding pres_def by blast
  with assms(2) 2 show "I s'" unfolding pres_def by blast
qed

lemma pres_ite:
  assumes "pres I f" "pres I g"
  shows "pres I (ite b f g)"
  unfolding pres_def
proof (intro allI impI)
  fix s s'
  assume i: "I s" and r: "ite b f g s = Some s'"
  show "I s'"
  proof (cases "b s")
    case True
    with r have "f s = Some s'" by (simp add: ite_def)
    with assms(1) i show ?thesis unfolding pres_def by blast
  next
    case False
    with r have "g s = Some s'" by (simp add: ite_def)
    with assms(2) i show ?thesis unfolding pres_def by blast
  qed
qed

lemma pres_if: "(c \<Longrightarrow> pres I f) \<Longrightarrow> (\<not> c \<Longrightarrow> pres I g) \<Longrightarrow> pres I (if c then f else g)"
  by (cases c) simp_all

lemmas pres_intros = pres_block_Nil pres_block_Cons pres_ite pres_if pres_lift

lemmas reg_defs = reg_10_def reg_11_def reg_12_def reg_13_def reg_14_def reg_16_def reg_17_def
  reg_18_def reg_19_def reg_1A_def reg_1B_def reg_1C_def reg_1D_def reg_1E_def reg_20_def
  reg_21_def reg_22_def reg_23_def reg_24_def reg_25_def reg_26_def

lemma view_config: "view s' = view s \<Longrightarrow> config s = c \<Longrightarrow> config s' = c"
  by (simp add: view_def)

lemma pres_config_prims:
  "pres (\<lambda>s. config s = c) (sendStartMessage K j)"
  "pres (\<lambda>s. config s = c) (sendUpdateMessage K j)"
  "pres (\<lambda>s. config s = c) (sendGlobalVolumeMessage K)"
  "pres (\<lambda>s. config s = c) (refreshSoundFreq i)"
  "pres (\<lambda>s. config s = c) (refreshSoundVolume K i send)"
  by (rule pres_of_frames [where I = "\<lambda>s. config s = c"], simp add: view_def, simp)+

lemma config_field_update [simp]:
  "config (chan1SweepTime_update g0 s) = config s"
  "config (chan1SweepCounter_update g1 s) = config s"
  "config (chan1SweepDir_update g2 s) = config s"
  "config (chan1SweepAmount_update g3 s) = config s"
  "config (chanLen_update g4 s) = config s"
  "config (chanLenCounter_update g5 s) = config s"
  "config (chanUseLen_update g6 s) = config s"
  "config (chanFreq_update g7 s) = config s"
  "config (chanVol_update g8 s) = config s"
  "config (chanEnvDir_update g9 s) = config s"
  "config (chanEnvCounter_update g10 s) = config s"
  "config (chanEnvSweep_update g11 s) = config s"
  "config (chan4FreqRatio_update g12 s) = config s"
  "config (pcmVals_update g13 s) = config s"
  "config (sampleData_update g14 s) = config s"
  "config (cyclesToSoundEvent_update g17 s) = config s"
  "config (sharedData_update g21 s) = config s"
  "config (dummySharedData_update g22 s) = config s"
  "config (fifo_update g23 s) = config s"
  "config (printLog_update g24 s) = config s"
  "config (arm7_update g25 s) = config s"
  by (simp_all add: config_def)

lemma sweepReload_Some:
  "sweepReload K s = Some s' \<Longrightarrow>
   s' = s \<or> (\<exists>p. s' = setSoundEventCycles p (s\<lparr>chan1SweepCounter := p\<rparr>))"
  by (auto simp: sweepReload_def bind_eq_Some_conv split: if_splits)

lemma config_setSoundEventCycles [simp]: "config (setSoundEventCycles c s) = config s"
  by (simp add: setSoundEventCycles_def)

lemma pres_config_sweepReload: "pres (\<lambda>s. config s = c) (sweepReload K)"
  unfolding pres_def by (auto dest!: sweepReload_Some)

lemma config_pure [simp]:
  "config (lenEvent i s) = config s" "config (useLenWrite i v s) = config s"
  "config (envWrite i v s) = config s" "config (refreshSoundPan i s) = config s"
  "config (refreshSoundDuty i s) = config s" "config (updateSoundSample b s) = config s"
  by (simp_all add: lenEvent_def useLenWrite_def envWrite_def refreshSoundPan_def Let_def
      refreshSoundDuty_def updateSoundSample_def setSoundEventCycles_def config_def)

lemma pres_config_handle: "pres (\<lambda>s. config s = c) (handleSoundRegister K r v)"
  unfolding handleSoundRegister_def reg_defs
  by (intro pres_intros pres_config_prims pres_config_sweepReload) simp_all

subsection \<open>Bits and bounds\<close>

lemma uint_drop4: "uint (drop_bit 4 (w :: u8)) = uint w div 16"
  by (simp add: drop_bit_eq_div uint_div)

lemma uint_drop4_bounds: "0 \<le> uint (drop_bit 4 (w :: u8)) \<and> uint (drop_bit 4 (w :: u8)) \<le> 15"
proof -
  have "uint w < 256" using uint_lt2p [of w] by simp
  moreover have "0 \<le> uint w" by simp
  ultimately show ?thesis unfolding uint_drop4 by presburger
qed

lemma uint_and7_bounds: "0 \<le> uint ((w :: u8) AND 7) \<and> uint (w AND 7) \<le> 7"
proof -
  have "uint (w AND 7) \<le> uint (7 :: u8)"
    by (rule word_and_le1 [THEN word_le_def [THEN iffD1]])
  then show ?thesis by simp
qed

lemma waveVolume_bounds: "0 \<le> waveVolume v \<and> waveVolume v \<le> 15"
proof -
  have "uint (drop_bit 5 v AND 3) \<le> uint (3 :: u8)"
    by (rule word_and_le1 [THEN word_le_def [THEN iffD1]])
  then show ?thesis by (simp add: waveVolume_def Let_def)
qed

lemma and_or_mask0: "(w OR c) AND m = 0 \<longleftrightarrow> w AND m = 0 \<and> c AND m = (0 :: u8)"
  by (simp add: bit.conj_disj_distrib2 or_eq_0_iff)

lemma and_not_mask0: "w AND m = 0 \<Longrightarrow> (w AND NOT c) AND m = (0 :: u8)"
  by (metis and.assoc and.commute and_zero_eq)

subsection \<open>Preservation through the register dispatcher\<close>

lemmas pres_rules = pres_intros

lemmas pure_defs = lenEvent_def useLenWrite_def envWrite_def refreshSoundPan_def
  refreshSoundDuty_def updateSoundSample_def setSoundEventCycles_def clearSoundChannel_def

lemma pres_prims:
  assumes "\<And>s s'. view s' = view s \<Longrightarrow> I s \<Longrightarrow> I s'"
  shows "pres I (sendStartMessage K j)" "pres I (sendUpdateMessage K j)"
    "pres I (sendGlobalVolumeMessage K)" "pres I (refreshSoundFreq i)"
    "pres I (refreshSoundVolume K i send)"
  by (rule pres_of_frames [of I, OF assms], assumption+, simp)+

lemma pres_sweepReload:
  assumes "\<And>s p. I s \<Longrightarrow> I (setSoundEventCycles p (s\<lparr>chan1SweepCounter := p\<rparr>))"
  shows "pres I (sweepReload K)"
  unfolding pres_def
proof (intro allI impI)
  fix s s'
  assume i: "I s" and r: "sweepReload K s = Some s'"
  from sweepReload_Some [OF r] show "I s'" using i assms by auto
qed

subsection \<open>Volumes stay in range\<close>

lemma view_vols: "view s' = view s \<Longrightarrow> vols_ok s \<Longrightarrow> vols_ok s'"
  by (simp add: view_def locals_def vols_ok_def)

lemmas pres_vols_prims = pres_prims [of vols_ok, OF view_vols]

lemma pres_vols_sweepReload: "pres vols_ok (sweepReload K)"
  by (rule pres_sweepReload) (simp add: vols_ok_def setSoundEventCycles_def)

lemma pres_vols_handle: "pres vols_ok (handleSoundRegister K r v)"
  unfolding handleSoundRegister_def reg_defs
  by (intro pres_rules pres_vols_prims pres_vols_sweepReload)
     (simp_all add: vols_ok_def pure_defs Let_def uint_drop4_bounds waveVolume_bounds)

subsection \<open>A channel that is off stays off unless it is triggered\<close>

lemma view_Off: "view s' = view s \<Longrightarrow> Off m s \<Longrightarrow> Off m s'"
  by (simp add: view_def Off_def)

lemmas pres_Off_prims = pres_prims [of "Off m", OF view_Off] for m

lemma pres_Off_sweepReload: "pres (Off m) (sweepReload K)"
  by (rule pres_sweepReload) (simp add: Off_def setSoundEventCycles_def)

lemma ite_const_False: "ite (\<lambda>s. False) f g = g"
  by (simp add: ite_def fun_eq_iff)

lemma pres_Off_reg_1E:
  assumes "starts 0x1E v AND m = 0"
  shows "pres (Off m) (reg_1E K v)"
proof (cases "v AND 0x80 = 0")
  case True
  then show ?thesis
    unfolding reg_1E_def
    by (simp add: ite_const_False)
       (intro pres_rules pres_Off_prims, simp_all add: Off_def pure_defs)
next
  case False
  with assms have "CHAN_3 AND m = 0" by (simp add: starts_def)
  then show ?thesis
    unfolding reg_1E_def
    by (intro pres_rules pres_Off_prims) (simp_all add: Off_def pure_defs and_or_mask0)
qed

lemmas reg_defs' = reg_10_def reg_11_def reg_12_def reg_13_def reg_14_def reg_16_def reg_17_def
  reg_18_def reg_19_def reg_1A_def reg_1B_def reg_1C_def reg_1D_def reg_20_def
  reg_21_def reg_22_def reg_23_def reg_24_def reg_25_def reg_26_def

lemma pres_Off_handle:
  assumes "starts r v AND m = 0"
  shows "pres (Off m) (handleSoundRegister K r v)"
  using assms unfolding handleSoundRegister_def reg_defs'
  by (intro pres_rules pres_Off_prims pres_Off_sweepReload pres_Off_reg_1E)
     (simp_all add: Off_def pure_defs Let_def starts_def and_or_mask0 and_not_mask0)

subsection \<open>Message queue\<close>

lemma FIFO_SEND_below:
  "outstanding s < MAX_FIFOS_WAITING \<Longrightarrow>
   FIFO_SEND m s = s\<lparr>sharedData := (sharedData s)\<lparr>fifosSent := fifosSent (sharedData s) + 1\<rparr>,
                      fifo := fifo s @ [m]\<rparr>"
  by (simp add: FIFO_SEND_def outstanding_def)

lemma FIFO_SEND_full:
  "MAX_FIFOS_WAITING \<le> outstanding s \<Longrightarrow>
   FIFO_SEND m s = s\<lparr>printLog := printLog s @ [''Sound error'' @ [CHR 0x0A]]\<rparr>"
  by (simp add: FIFO_SEND_def outstanding_def)

lemma send_all_fifo:
  "fifo (send_all ms s) = fifo s @ take (nat (MAX_FIFOS_WAITING - outstanding s)) ms \<and>
   fifosSent (sharedData (send_all ms s)) =
     fifosSent (sharedData s) + int (min (length ms) (nat (MAX_FIFOS_WAITING - outstanding s))) \<and>
   fifosReceived (sharedData (send_all ms s)) = fifosReceived (sharedData s) \<and>
   length (printLog (send_all ms s)) =
     length (printLog s) + (length ms - nat (MAX_FIFOS_WAITING - outstanding s))"
proof (induction ms arbitrary: s)
  case Nil
  then show ?case by simp
next
  case (Cons m ms)
  show ?case
  proof (cases "outstanding s < MAX_FIFOS_WAITING")
    case True
    have o: "outstanding (FIFO_SEND m s) = outstanding s + 1"
      using True by (simp add: FIFO_SEND_below) (simp add: outstanding_def)
    have n: "nat (MAX_FIFOS_WAITING - outstanding s) = Suc (nat (MAX_FIFOS_WAITING - (outstanding s + 1)))"
      using True by simp
    show ?thesis
      using Cons.IH [of "FIFO_SEND m s"] True
      by (simp add: o n del: nat_diff_distrib) (simp add: FIFO_SEND_below)
  next
    case False
    have o: "outstanding (FIFO_SEND m s) = outstanding s"
      using False by (simp add: FIFO_SEND_full) (simp add: outstanding_def)
    show ?thesis
      using Cons.IH [of "FIFO_SEND m s"] False
      by (simp add: o) (simp add: FIFO_SEND_full)
  qed
qed

text \<open>C4: a send performed while fewer than 60 sent messages are unacknowledged increments
  the sent counter and enqueues the message behind the earlier ones; a send performed at or
  above the threshold drops the message, records the diagnostic line and leaves the sent
  counter unchanged. \<open>FIFO_SEND\<close> is a total function: it never blocks. For a run of
  sends exactly the first \<open>60 - outstanding\<close> messages are enqueued, in order.\<close>

theorem FIFO_SEND_admission_control:
  "(outstanding s < MAX_FIFOS_WAITING \<longrightarrow>
      fifosSent (sharedData (FIFO_SEND m s)) = fifosSent (sharedData s) + 1 \<and>
      fifo (FIFO_SEND m s) = fifo s @ [m] \<and>
      printLog (FIFO_SEND m s) = printLog s) \<and>
   (MAX_FIFOS_WAITING \<le> outstanding s \<longrightarrow>
      fifosSent (sharedData (FIFO_SEND m s)) = fifosSent (sharedData s) \<and>
      fifo (FIFO_SEND m s) = fifo s \<and>
      printLog (FIFO_SEND m s) = printLog s @ [''Sound error'' @ [CHR 0x0A]]) \<and>
   MAX_FIFOS_WAITING = 60 \<and>
   fifo (send_all ms s) = fifo s @ take (nat (MAX_FIFOS_WAITING - outstanding s)) ms \<and>
   fifosSent (sharedData (send_all ms s)) =
     fifosSent (sharedData s) + int (min (length ms) (nat (MAX_FIFOS_WAITING - outstanding s))) \<and>
   length (printLog (send_all ms s)) =
     length (printLog s) + (length ms - nat (MAX_FIFOS_WAITING - outstanding s))"
  using send_all_fifo [of ms s]
  by (simp add: FIFO_SEND_below FIFO_SEND_full) (simp add: MAX_FIFOS_WAITING_def)

lemma waiting_simps:
  "outstanding (waiting n) = n" "fifo (waiting n) = []" "fifosSent (sharedData (waiting n)) = n"
  "fifosReceived (sharedData (waiting n)) = 0"
  by (simp_all add: outstanding_def waiting_def state0_def shared0_def)

theorem FIFO_SEND_admission_control_witness:
  "fifo (FIFO_SEND 7 (waiting 59)) = [7] \<and>
   fifo (FIFO_SEND 7 (waiting 60)) = [] \<and>
   fifosSent (sharedData (FIFO_SEND 7 (waiting 60))) = 60 \<and>
   fifo (send_all [1, 2, 3] (waiting 58)) = [1, 2]"
proof -
  have a: "fifo (FIFO_SEND 7 (waiting 59)) = [7]"
    using FIFO_SEND_admission_control [of "waiting 59" 7 "[]"]
    by (simp add: waiting_simps MAX_FIFOS_WAITING_def)
  have b: "fifo (FIFO_SEND 7 (waiting 60)) = [] \<and>
     fifosSent (sharedData (FIFO_SEND 7 (waiting 60))) = 60"
    using FIFO_SEND_admission_control [of "waiting 60" 7 "[]"]
    by (simp add: waiting_simps MAX_FIFOS_WAITING_def)
  have c: "fifo (send_all [1, 2, 3] (waiting 58)) = [1, 2]"
    using FIFO_SEND_admission_control [of "waiting 58" 7 "[1, 2, 3]"]
    by (simp add: waiting_simps MAX_FIFOS_WAITING_def)
  from a b c show ?thesis by simp
qed

text \<open>C10: \<open>muteSND\<close> and \<open>unmuteSND\<close> do not pass through the admission control of
  \<open>FIFO_SEND\<close>: in every state of the counters they increment the sent counter and
  enqueue their command, and record no diagnostic.\<close>

theorem muteSND_unconditional:
  "fifosSent (sharedData (muteSND K s)) = fifosSent (sharedData s) + 1 \<and>
   fifo (muteSND K s) = fifo s @ [word_of_int (push_bit 20 (GBSND_MUTE_COMMAND K))] \<and>
   printLog (muteSND K s) = printLog s \<and>
   fifosSent (sharedData (unmuteSND K s)) = fifosSent (sharedData s) + 1 \<and>
   fifo (unmuteSND K s) = fifo s @ [word_of_int (push_bit 20 (GBSND_UNMUTE_COMMAND K))] \<and>
   printLog (unmuteSND K s) = printLog s"
  by (simp add: muteSND_def unmuteSND_def)

theorem muteSND_unconditional_witness:
  "MAX_FIFOS_WAITING \<le> outstanding (waiting 75) \<and>
   fifo (FIFO_SEND 0x500000 (waiting 75)) = [] \<and>
   fifo (muteSND K0 (waiting 75)) = [0x500000] \<and>
   fifosSent (sharedData (muteSND K0 (waiting 75))) = 76 \<and>
   fifo (unmuteSND K0 (waiting 75)) = [0x600000] \<and>
   fifosSent (sharedData (unmuteSND K0 (waiting 75))) = 76"
  using muteSND_unconditional [of K0 "waiting 75"]
  by (simp add: waiting_simps MAX_FIFOS_WAITING_def FIFO_SEND_def K0_def outstanding_def [symmetric])

subsection \<open>Invariants through the loops of updateSound\<close>

lemma sweep_loop_pres:
  assumes "sweep_loop K s ch = Some r" "pres I (sweep_body K)" "I s"
  shows "I (fst r)"
  using assms
proof (induction rule: sweep_loop.raw_induct [rotated 1, consumes 1])
  case (1 f K s ch r)
  show ?case
  proof (cases "chan1SweepCounter s \<le> 0")
    case True
    with "1"(2) obtain s1 where b: "sweep_body K s = Some s1" and l: "f K s1 True = Some r"
      by (auto simp: bind_eq_Some_conv)
    from "1"(3,4) b have "I s1" unfolding pres_def by blast
    from "1"(1) [OF l "1"(3) this] show ?thesis .
  next
    case False
    with "1"(2,4) show ?thesis by auto
  qed
qed

lemma env_loop_pres:
  assumes "env_loop K i s ch = Some r" "pres I (env_body K i)" "I s"
  shows "I (fst r)"
  using assms
proof (induction rule: env_loop.raw_induct [rotated 1, consumes 1])
  case (1 f K i s ch r)
  show ?case
  proof (cases "chanEnvCounter s i \<le> 0")
    case True
    with "1"(2) obtain s1 where b: "env_body K i s = Some s1" and l: "f K i s1 True = Some r"
      by (auto simp: bind_eq_Some_conv)
    from "1"(3,4) b have "I s1" unfolding pres_def by blast
    from "1"(1) [OF l "1"(3) this] show ?thesis .
  next
    case False
    with "1"(2,4) show ?thesis by auto
  qed
qed

lemma sweep_pass_pres:
  assumes r: "sweep_pass K cyc s ch = Some r" and i: "I s"
    and b: "pres I (sweep_body K)"
    and c: "\<And>s c. I s \<Longrightarrow> I (s\<lparr>chan1SweepCounter := c\<rparr>)"
    and e: "\<And>s c. I s \<Longrightarrow> I (setSoundEventCycles c s)"
  shows "I (fst r)"
proof (cases "chanOn (sp s) AND CHAN_1 \<noteq> 0 \<and> chan1SweepTime s \<noteq> 0")
  case True
  with r obtain r1 where l: "sweep_loop K (s\<lparr>chan1SweepCounter := wrap32 (chan1SweepCounter s - cyc)\<rparr>) ch = Some r1"
    and f: "fst r = (if chanOn (sp (fst r1)) AND CHAN_1 \<noteq> 0
                    then setSoundEventCycles (chan1SweepCounter (fst r1)) (fst r1) else fst r1)"
    by (auto simp: sweep_pass_def bind_eq_Some_conv split: prod.splits)
  from sweep_loop_pres [where I = I, OF l b c [OF i]] have "I (fst r1)" .
  with f e show ?thesis by simp
next
  case False
  with r have "fst r = s" by (auto simp: sweep_pass_def)
  with i show ?thesis by simp
qed

lemma env_chan_pres:
  assumes r: "env_chan K cyc i s ch = Some r" and i: "I s"
    and b: "pres I (env_body K i)"
    and c: "\<And>s c. I s \<Longrightarrow> I (s\<lparr>chanEnvCounter := (chanEnvCounter s)(i := c)\<rparr>)"
    and e: "\<And>s c. I s \<Longrightarrow> I (setSoundEventCycles c s)"
  shows "I (fst r)"
proof (cases "(i \<noteq> 2 \<and> chanOn (sp s) AND push_bit i 1 \<noteq> 0) \<and> chanEnvSweep s i \<noteq> 0")
  case True
  with r obtain r1 where l: "env_loop K i (s\<lparr>chanEnvCounter := (chanEnvCounter s)(i := chanEnvCounter s i - cyc)\<rparr>) ch = Some r1"
    and f: "fst r = (if chanVol (fst r1) i \<noteq> 0 \<and> chanVol (fst r1) i \<noteq> 0xF
                    then setSoundEventCycles (chanEnvCounter (fst r1) i) (fst r1) else fst r1)"
    by (auto simp: env_chan_def bind_eq_Some_conv split: prod.splits)
  from env_loop_pres [where I = I, OF l b c [OF i]] have "I (fst r1)" .
  with f e show ?thesis by simp
next
  case False
  with r have "fst r = s" by (auto simp: env_chan_def split: if_splits)
  with i show ?thesis by simp
qed

lemma env_pass_pres:
  assumes "env_pass K cyc is s ch = Some r" "I s" "\<forall>i \<in> set is. i < n"
    and st: "\<And>i s ch r. i < n \<Longrightarrow> env_chan K cyc i s ch = Some r \<Longrightarrow> I s \<Longrightarrow> I (fst r)"
  shows "I (fst r)"
  using assms(1,2,3)
proof (induction "is" arbitrary: s ch)
  case Nil
  then show ?case by auto
next
  case (Cons i "is")
  from Cons.prems(1) obtain s1 c1 where 1: "env_chan K cyc i s ch = Some (s1, c1)"
    and 2: "env_pass K cyc is s1 c1 = Some r"
    by (auto simp: bind_eq_Some_conv)
  from Cons.prems(3) have lt: "i < n" by simp
  from st [OF lt 1 Cons.prems(2)] have "I s1" by simp
  from Cons.IH [OF 2 this] Cons.prems(3) show ?case by simp
qed

lemma len_pass_pres:
  assumes "I s" "\<forall>i \<in> set is. i < n"
    and st: "\<And>i s ch. i < n \<Longrightarrow> I s \<Longrightarrow> I (fst (len_chan cyc i s ch))"
  shows "I (fst (len_pass cyc is s ch))"
  using assms(1,2)
proof (induction "is" arbitrary: s ch)
  case Nil
  then show ?case by simp
next
  case (Cons i "is")
  obtain s1 c1 where 1: "len_chan cyc i s ch = (s1, c1)" by (cases "len_chan cyc i s ch")
  from Cons.prems(2) have lt: "i < n" by simp
  from st [OF lt Cons.prems(1), of ch] 1 have "I s1" by simp
  from Cons.IH [OF this] Cons.prems(2) 1 show ?case by simp
qed

lemma updateSound_Some:
  assumes "updateSound K cyc s = Some s'" "\<not> soundDisabled s"
  shows "\<exists>r1 r2.
     sweep_pass K cyc s False = Some r1 \<and>
     env_pass K cyc [0, 1, 2, 3] (fst r1) (snd r1) = Some r2 \<and>
     notifyChanged K (fst (len_pass cyc [0, 1, 2, 3] (fst r2) (snd r2)))
       (snd (len_pass cyc [0, 1, 2, 3] (fst r2) (snd r2))) = Some s'"
proof -
  from assms have "sweep_pass K cyc s False \<bind> (\<lambda>(s1, c1).
        env_pass K cyc [0, 1, 2, 3] s1 c1 \<bind> (\<lambda>(s2, c2).
        case len_pass cyc [0, 1, 2, 3] s2 c2 of (s3, c3) \<Rightarrow> notifyChanged K s3 c3)) = Some s'"
    unfolding updateSound_def by (simp only: if_False)
  then obtain r1 where 1: "sweep_pass K cyc s False = Some r1"
    and a: "(case r1 of (s1, c1) \<Rightarrow>
        env_pass K cyc [0, 1, 2, 3] s1 c1 \<bind> (\<lambda>(s2, c2).
        case len_pass cyc [0, 1, 2, 3] s2 c2 of (s3, c3) \<Rightarrow> notifyChanged K s3 c3)) = Some s'"
    unfolding bind_eq_Some_conv by blast
  from a have "env_pass K cyc [0, 1, 2, 3] (fst r1) (snd r1) \<bind> (\<lambda>(s2, c2).
        case len_pass cyc [0, 1, 2, 3] s2 c2 of (s3, c3) \<Rightarrow> notifyChanged K s3 c3) = Some s'"
    unfolding case_prod_beta .
  then obtain r2 where 2: "env_pass K cyc [0, 1, 2, 3] (fst r1) (snd r1) = Some r2"
    and b: "(case r2 of (s2, c2) \<Rightarrow>
        case len_pass cyc [0, 1, 2, 3] s2 c2 of (s3, c3) \<Rightarrow> notifyChanged K s3 c3) = Some s'"
    unfolding bind_eq_Some_conv by blast
  from b have "notifyChanged K (fst (len_pass cyc [0, 1, 2, 3] (fst r2) (snd r2)))
       (snd (len_pass cyc [0, 1, 2, 3] (fst r2) (snd r2))) = Some s'"
    unfolding case_prod_beta .
  with 1 2 show ?thesis by blast
qed

lemma notifyChanged_pres:
  assumes "notifyChanged K s c = Some s'" "I s"
    and up: "pres I (sendUpdateMessage K (- 1))"
    and ff: "\<And>m s. I s \<Longrightarrow> I (FIFO_SEND m s)"
  shows "I s'"
proof -
  from assms(1) have "s' = s \<or> sendUpdateMessage K (- 1) s = Some s'
    \<or> s' = FIFO_SEND (word_of_int (push_bit 28 (GBSND_UPDATE_COMMAND K) OR 4)) s"
    by (simp add: notifyChanged_def split: if_splits)
  then consider "s' = s" | "sendUpdateMessage K (- 1) s = Some s'"
    | "s' = FIFO_SEND (word_of_int (push_bit 28 (GBSND_UPDATE_COMMAND K) OR 4)) s"
    by blast
  then show ?thesis
  proof cases
    case 1
    with assms(2) show ?thesis by simp
  next
    case 2
    with up assms(2) show ?thesis unfolding pres_def by blast
  next
    case 3
    with ff [OF assms(2)] show ?thesis by simp
  qed
qed

lemma updateSound_pres:
  assumes sw: "\<And>s ch r. sweep_pass K cyc s ch = Some r \<Longrightarrow> I s \<Longrightarrow> I (fst r)"
    and en: "\<And>i s ch r. i < 4 \<Longrightarrow> env_chan K cyc i s ch = Some r \<Longrightarrow> I s \<Longrightarrow> I (fst r)"
    and le: "\<And>i s ch. i < 4 \<Longrightarrow> I s \<Longrightarrow> I (fst (len_chan cyc i s ch))"
    and up: "pres I (sendUpdateMessage K (- 1))"
    and ff: "\<And>m s. I s \<Longrightarrow> I (FIFO_SEND m s)"
  shows "pres I (updateSound K cyc)"
  unfolding pres_def
proof (intro allI impI)
  fix s s'
  assume i: "I s" and r: "updateSound K cyc s = Some s'"
  show "I s'"
  proof (cases "soundDisabled s")
    case True
    with r i show ?thesis by (simp add: updateSound_def)
  next
    case False
    from updateSound_Some [OF r False] obtain r1 r2 where
      1: "sweep_pass K cyc s False = Some r1"
      and 2: "env_pass K cyc [0, 1, 2, 3] (fst r1) (snd r1) = Some r2"
      and 4: "notifyChanged K (fst (len_pass cyc [0, 1, 2, 3] (fst r2) (snd r2)))
                (snd (len_pass cyc [0, 1, 2, 3] (fst r2) (snd r2))) = Some s'"
      by blast
    from sw [OF 1 i] have i1: "I (fst r1)" .
    have lt: "\<forall>i \<in> set [0, 1, 2, 3]. i < (4 :: nat)" by simp
    from env_pass_pres [where I = I and n = 4, OF 2 i1 lt en] have i2: "I (fst r2)" .
    from len_pass_pres [where I = I and n = 4, OF i2 lt le]
    have i3: "I (fst (len_pass cyc [0, 1, 2, 3] (fst r2) (snd r2)))" .
    from notifyChanged_pres [where I = I, OF 4 i3 up ff] show ?thesis .
  qed
qed

subsection \<open>Runs\<close>

lemma run_pres:
  assumes "run K ops s = Some s'" "I s" "\<And>x. x \<in> set ops \<Longrightarrow> pres I (step K x)"
  shows "I s'"
  using assms
proof (induction ops arbitrary: s)
  case Nil
  then show ?case by simp
next
  case (Cons x xs)
  from Cons.prems(1) obtain s1 where 1: "step K x s = Some s1" and 2: "run K xs s1 = Some s'"
    by (auto simp: bind_eq_Some_conv)
  from Cons.prems(3) [of x] 1 Cons.prems(2) have "I s1" unfolding pres_def by auto
  from Cons.IH [OF 2 this] Cons.prems(3) show ?case by simp
qed

subsection \<open>The envelope keeps the volume in range\<close>

lemma FIFO_SEND_locals [simp]: "locals (FIFO_SEND m s) = locals s"
  by (simp add: FIFO_SEND_def locals_def)

lemma vols_ok_FIFO_SEND: "vols_ok s \<Longrightarrow> vols_ok (FIFO_SEND m s)"
  by (simp add: vols_ok_def FIFO_SEND_def)

lemma pres_vols_sweep_body: "pres vols_ok (sweep_body K)"
  unfolding sweep_body_def
  apply (intro pres_rules pres_vols_prims)
     apply (auto simp: pres_def vols_ok_def pure_defs bind_eq_Some_conv)
  done

lemma env_body_clamps:
  assumes "env_body K i s = Some s'"
  shows "chanVol s' = (chanVol s)(i := max 0 (min 15 (chanVol s i + chanEnvDir s i)))"
proof -
  from assms obtain s4 where 1: "refreshSoundVolume K i False s4 = Some s'"
    and 2: "chanVol s4 = (chanVol s)(i := max 0 (min 15 (chanVol s i + chanEnvDir s i)))"
    by (auto simp: env_body_def lift_def bind_eq_Some_conv)
  from frames_refreshSoundVolume 1 have "view s' = view s4" unfolding frames_def by blast
  then have "chanVol s' = chanVol s4" by (simp add: view_def locals_def)
  with 2 show ?thesis by simp
qed

lemma pres_vols_env_body: "pres vols_ok (env_body K i)"
  unfolding pres_def by (auto simp: vols_ok_def dest!: env_body_clamps)

lemma pres_vols_updateSound: "pres vols_ok (updateSound K cyc)"
proof (rule updateSound_pres)
  show "\<And>s ch r. sweep_pass K cyc s ch = Some r \<Longrightarrow> vols_ok s \<Longrightarrow> vols_ok (fst r)"
    by (erule sweep_pass_pres, assumption, rule pres_vols_sweep_body)
       (simp_all add: vols_ok_def setSoundEventCycles_def)
  show "\<And>i s ch r. i < 4 \<Longrightarrow> env_chan K cyc i s ch = Some r \<Longrightarrow> vols_ok s \<Longrightarrow> vols_ok (fst r)"
    by (erule env_chan_pres, assumption, rule pres_vols_env_body)
       (simp_all add: vols_ok_def setSoundEventCycles_def)
  show "\<And>i s ch. i < 4 \<Longrightarrow> vols_ok s \<Longrightarrow> vols_ok (fst (len_chan cyc i s ch))"
    by (simp add: len_chan_def vols_ok_def Let_def pure_defs)
  show "pres vols_ok (sendUpdateMessage K (- 1))" by (rule pres_vols_prims)
  show "\<And>m s. vols_ok s \<Longrightarrow> vols_ok (FIFO_SEND m s)" by (rule vols_ok_FIFO_SEND)
qed

lemma step_simps [simp]:
  "step K (Advance c) = updateSound K c" "step K (Write r v) = handleSoundRegister K r v"
  by (simp_all add: fun_eq_iff step_def)

lemma pres_vols_step: "pres vols_ok (step K x)"
  by (cases x) (simp_all add: pres_vols_updateSound pres_vols_handle)

text \<open>C8: for every channel, every envelope direction and period, one round of the
  envelope leaves the channel's volume in [0, 15], whatever it was before; and from a state
  whose volumes are in [0, 15], every sequence of advance calls and register writes leads to
  a state whose volumes are in [0, 15].\<close>

theorem envelope_volume_in_range:
  "(env_body K i s = Some t \<longrightarrow> 0 \<le> chanVol t i \<and> chanVol t i \<le> 15) \<and>
   (vols_ok s \<and> run K ops s = Some s' \<longrightarrow> vols_ok s')"
proof (intro conjI impI)
  assume "env_body K i s = Some t"
  from env_body_clamps [OF this] show "0 \<le> chanVol t i" "chanVol t i \<le> 15" by simp_all
next
  assume "vols_ok s \<and> run K ops s = Some s'"
  then show "vols_ok s'" using run_pres [of K ops s s' vols_ok] pres_vols_step by blast
qed

lemmas eval_defs = handleSoundRegister_def reg_defs lift_def ite_def refreshSoundFreq_def
  refreshSoundVolume_def sendUpdateMessage_def sendStartMessage_def sendGlobalVolumeMessage_def
  synchronizeSound_def syncCycles_def FIFO_SEND_def sp_def sp_update_def sweepReload_def
  sweepPeriod_def pure_defs lenCounter64_def lenCounter256_def c_div_def readIO_def
  MAX_FIFOS_WAITING_def CHAN_1_def CHAN_2_def CHAN_3_def CHAN_4_def Let_def

lemmas advance_defs = updateSound_def sweep_pass_def sweep_loop.simps sweep_body_def
  env_chan_def env_loop.simps env_body_def len_chan_def chanMask_def notifyChanged_def wrap32_def

lemmas state0_defs = state0_def shared0_def gameboy0_def K0_def

lemma run_env:
  "run K0 ops_env state_env \<noteq> None \<and> chanVol (the (run K0 ops_env state_env)) 0 = 13"
  by (simp add: ops_env_def state_env_def eval_defs advance_defs state0_defs)

theorem envelope_volume_in_range_witness:
  "vols_ok state_env \<and> run K0 ops_env state_env \<noteq> None \<and>
   vols_ok (the (run K0 ops_env state_env)) \<and>
   chanVol (the (run K0 ops_env state_env)) 0 = 13"
proof -
  from run_env obtain s' where r: "run K0 ops_env state_env = Some s'" by auto
  have v: "vols_ok state_env"
    by (simp add: vols_ok_def state_env_def state0_def)
  from envelope_volume_in_range [of K0 0 state_env s' ops_env s'] v r have "vols_ok s'" by blast
  with r v run_env show ?thesis by simp
qed

subsection \<open>The sweep of channel 1\<close>

lemma view_FIFO_SEND [simp]: "view (FIFO_SEND m s) = view s"
  by (simp add: view_def FIFO_SEND_def locals_def config_def sp_def split: shared_ref.splits)

lemma Off_FIFO_SEND: "Off m s \<Longrightarrow> Off m (FIFO_SEND m' s)"
  using view_Off [of "FIFO_SEND m' s" s m] by simp

lemma pres_sweep_tick:
  assumes "\<And>s c. I s \<Longrightarrow> I (s\<lparr>chan1SweepCounter := c\<rparr>)"
  shows "pres I (\<lambda>s. sweepPeriod K (chan1SweepTime s) \<bind>
            (\<lambda>p. Some (s\<lparr>chan1SweepCounter := wrap32 (chan1SweepCounter s + (p + chan1SweepCounter s))\<rparr>)))"
  unfolding pres_def
proof (intro allI impI)
  fix s s'
  assume i: "I s" and r: "sweepPeriod K (chan1SweepTime s) \<bind>
            (\<lambda>p. Some (s\<lparr>chan1SweepCounter := wrap32 (chan1SweepCounter s + (p + chan1SweepCounter s))\<rparr>)) = Some s'"
  from r obtain p where "s' = s\<lparr>chan1SweepCounter := wrap32 (chan1SweepCounter s + (p + chan1SweepCounter s))\<rparr>"
    by (auto simp: bind_eq_Some_conv)
  with assms [OF i] show "I s'" by simp
qed

lemma pres_Off_sweep_body: "pres (Off m) (sweep_body K)"
  unfolding sweep_body_def
  by (intro pres_rules pres_Off_prims pres_sweep_tick)
     (simp_all add: Off_def pure_defs and_not_mask0)

lemma pres_Off_env_body: "pres (Off m) (env_body K i)"
  unfolding env_body_def
  by (intro pres_rules pres_Off_prims) (simp_all add: Off_def)

lemma pres_Off_updateSound: "pres (Off m) (updateSound K cyc)"
proof (rule updateSound_pres)
  show "\<And>s ch r. sweep_pass K cyc s ch = Some r \<Longrightarrow> Off m s \<Longrightarrow> Off m (fst r)"
    by (erule sweep_pass_pres, assumption, rule pres_Off_sweep_body)
       (simp_all add: Off_def setSoundEventCycles_def)
  show "\<And>i s ch r. i < 4 \<Longrightarrow> env_chan K cyc i s ch = Some r \<Longrightarrow> Off m s \<Longrightarrow> Off m (fst r)"
    by (erule env_chan_pres, assumption, rule pres_Off_env_body)
       (simp_all add: Off_def setSoundEventCycles_def)
  show "\<And>i s ch. i < 4 \<Longrightarrow> Off m s \<Longrightarrow> Off m (fst (len_chan cyc i s ch))"
    by (simp add: len_chan_def Off_def Let_def pure_defs and_not_mask0)
  show "pres (Off m) (sendUpdateMessage K (- 1))" by (rule pres_Off_prims)
  show "\<And>m' s. Off m s \<Longrightarrow> Off m (FIFO_SEND m' s)" by (rule Off_FIFO_SEND)
qed

lemma pres_Off_step: "\<not> retriggers m x \<Longrightarrow> pres (Off m) (step K x)"
  by (cases x) (simp_all add: retriggers_def pres_Off_updateSound pres_Off_handle)

lemma run_stays_off:
  assumes "Off m s" "\<forall>x \<in> set ops. \<not> retriggers m x" "run K ops s = Some s'"
  shows "Off m s'"
  using run_pres [of K ops s s' "Off m"] assms pres_Off_step by blast

lemma sweepPeriod_Some:
  assumes "1 \<le> t" "t \<le> 128"
  shows "sweepPeriod K t \<noteq> None"
proof -
  from assms have "0 < 128 div t" using pos_imp_zdiv_pos_iff [of t 128] by simp
  with assms show ?thesis by (simp add: sweepPeriod_def c_div_def)
qed

lemma bind_block_Nil [simp]: "m \<bind> block [] = m"
  by (cases m) simp_all

lemma sweep_body_Some:
  assumes "sweep_body K s = Some t"
  shows "\<exists>p. sweepPeriod K (chan1SweepTime s) = Some p \<and>
    (let s2 = s\<lparr>chan1SweepCounter := wrap32 (chan1SweepCounter s + (p + chan1SweepCounter s)),
                  chanFreq := (chanFreq s)(0 := sweep_next s)\<rparr>
     in if sweep_next s > 0x7FF
        then t = clearSoundChannel CHAN_1 (sp_update (\<lambda>d. d\<lparr>chanOn := chanOn d AND NOT CHAN_1\<rparr>) s2)
        else refreshSoundFreq 0 s2 = Some t)"
proof -
  from assms obtain s1 where 1: "sweepPeriod K (chan1SweepTime s) \<bind>
            (\<lambda>p. Some (s\<lparr>chan1SweepCounter := wrap32 (chan1SweepCounter s + (p + chan1SweepCounter s))\<rparr>)) = Some s1"
    and 2: "block [lift (\<lambda>s. s\<lparr>chanFreq := (chanFreq s)
               (0 := chanFreq s 0 +
                     drop_bit (nat (chan1SweepAmount s)) (chanFreq s 0) * chan1SweepDir s)\<rparr>),
      ite (\<lambda>s. chanFreq s 0 > 0x7FF)
        (block [lift (sp_update (\<lambda>d. d\<lparr>chanOn := chanOn d AND NOT CHAN_1\<rparr>)),
                lift (clearSoundChannel CHAN_1)])
        (refreshSoundFreq 0)] s1 = Some t"
    unfolding sweep_body_def block.simps(2) bind_eq_Some_conv by blast
  from 1 obtain p where p: "sweepPeriod K (chan1SweepTime s) = Some p"
    and s1: "s1 = s\<lparr>chan1SweepCounter := wrap32 (chan1SweepCounter s + (p + chan1SweepCounter s))\<rparr>"
    unfolding bind_eq_Some_conv by auto
  from 2 show ?thesis
    unfolding s1
    by (intro exI [of _ p]) (simp add: p lift_def ite_def sweep_next_def Let_def split: if_splits)
qed


lemma sweep_body_returns:
  assumes "1 \<le> chan1SweepTime s" "chan1SweepTime s \<le> 128"
  shows "sweep_body K s \<noteq> None"
proof -
  from sweepPeriod_Some [OF assms, of K] obtain p where "sweepPeriod K (chan1SweepTime s) = Some p"
    by auto
  then show ?thesis
    by (simp add: sweep_body_def lift_def ite_def refreshSoundFreq_def)
qed





subsection \<open>Length expiry\<close>

lemma chan_cases: "i < 4 \<Longrightarrow> i = 0 \<or> i = 1 \<or> i = 2 \<or> i = (3 :: nat)"
  by arith

lemma chanMask_push_bit: "i < 4 \<Longrightarrow> push_bit i 1 = chanMask i"
  by (auto dest!: chan_cases simp: chanMask_def CHAN_1_def CHAN_2_def CHAN_3_def CHAN_4_def)


lemma chanMask_distinct:
  "i < 4 \<Longrightarrow> j < 4 \<Longrightarrow> i \<noteq> j \<Longrightarrow> chanMask j \<noteq> chanMask i \<and> chanMask j AND chanMask i = 0"
  by (auto dest!: chan_cases simp: chanMask_def CHAN_1_def CHAN_2_def CHAN_3_def CHAN_4_def)

















subsection \<open>Trigger writes\<close>

lemma framesD: "frames f \<Longrightarrow> f s = Some s' \<Longrightarrow> view s' = view s"
  unfolding frames_def by blast

lemma view_fields:
  assumes "view s' = view s"
  shows "chanOn (sp s') = chanOn (sp s)" "chanLenCounter s' = chanLenCounter s"
    "chanVol s' = chanVol s" "chan1SweepCounter s' = chan1SweepCounter s"
    "chan1SweepTime s' = chan1SweepTime s" "gameboy s' = gameboy s" "chanLen s' = chanLen s"
    "locals s' = locals s" "config s' = config s"
  using assms by (simp_all add: view_def locals_def config_def)

lemma sendStartMessage_message:
  assumes "sendStartMessage K i s = Some s'"
  shows "message (sp s') = word_of_int (push_bit 20 (GBSND_START_COMMAND K) OR i)"
  using synchronizeSound_sp(3) [OF assms [unfolded sendStartMessage_def]]
  by (simp add: committed_def)

lemma sendUpdateMessage_message:
  assumes "sendUpdateMessage K i s = Some s'"
  shows "message (sp s') = word_of_int (push_bit 20 (GBSND_UPDATE_COMMAND K) OR (if i = - 1 then 4 else i))"
  using synchronizeSound_sp(3) [OF assms [unfolded sendUpdateMessage_def Let_def]]
  by (simp add: committed_def)

lemma sweepReload_cases:
  "sweepReload K s = Some s' \<Longrightarrow>
   (chan1SweepTime s = 0 \<and> s' = s) \<or>
   (chan1SweepTime s \<noteq> 0 \<and>
    (\<exists>p. sweepPeriod K (chan1SweepTime s) = Some p \<and>
         s' = setSoundEventCycles p (s\<lparr>chan1SweepCounter := p\<rparr>)))"
  by (simp add: sweepReload_def bind_eq_Some_conv split: if_splits) blast

lemma sweepReload_fields:
  assumes "sweepReload K s = Some s'"
  shows "chanOn (sp s') = chanOn (sp s)" "chanLenCounter s' = chanLenCounter s"
    "chanVol s' = chanVol s" "gameboy s' = gameboy s" "config s' = config s"
    "chan1SweepTime s \<noteq> 0 \<Longrightarrow> sweepPeriod K (chan1SweepTime s) = Some (chan1SweepCounter s')"
proof -
  from sweepReload_cases [OF assms] consider "s' = s" "chan1SweepTime s = 0"
    | p where "sweepPeriod K (chan1SweepTime s) = Some p"
        "s' = setSoundEventCycles p (s\<lparr>chan1SweepCounter := p\<rparr>)"
    by blast
  then have "chanOn (sp s') = chanOn (sp s) \<and> chanLenCounter s' = chanLenCounter s \<and>
    chanVol s' = chanVol s \<and> gameboy s' = gameboy s \<and> config s' = config s \<and>
    (chan1SweepTime s \<noteq> 0 \<longrightarrow> sweepPeriod K (chan1SweepTime s) = Some (chan1SweepCounter s'))"
  proof cases
    case 1
    then show ?thesis by simp
  next
    case 2
    then show ?thesis by (simp add: setSoundEventCycles_def)
  qed
  then show "chanOn (sp s') = chanOn (sp s)" "chanLenCounter s' = chanLenCounter s"
    "chanVol s' = chanVol s" "gameboy s' = gameboy s" "config s' = config s"
    "chan1SweepTime s \<noteq> 0 \<Longrightarrow> sweepPeriod K (chan1SweepTime s) = Some (chan1SweepCounter s')"
    by simp_all
qed

lemma block_Cons_Some:
  "block (f # fs) s = Some s' \<longleftrightarrow> (\<exists>s1. f s = Some s1 \<and> block fs s1 = Some s')"
  by (simp add: bind_eq_Some_conv)

lemma lift_Some: "lift f s = Some s' \<longleftrightarrow> s' = f s"
  by (auto simp: lift_def)

lemma reg_14_trigger:
  assumes "v AND 0x80 \<noteq> 0" "reg_14 K v s = Some s'"
  shows "chanOn (sp s') = chanOn (sp s) OR CHAN_1"
    and "chanLenCounter s' 0 = c_div ((64 - chanLen s 0) * clockSpeed K) 256"
    and "chanVol s' 0 = uint (drop_bit 4 (readIO (gameboy s) 0x12))"
    and "chan1SweepTime s \<noteq> 0 \<Longrightarrow> sweepPeriod K (chan1SweepTime s) = Some (chan1SweepCounter s')"
    and "message (sp s') = word_of_int (push_bit 20 (GBSND_START_COMMAND K) OR 0)"
    and "config s' = config s"
proof -
  define g where "g = (\<lambda>s1.
      (\<lambda>s. s\<lparr>chanVol := (chanVol s)(0 := uint (drop_bit 4 (readIO (gameboy s) 0x12)))\<rparr>)
        (sp_update (\<lambda>d. d\<lparr>chanOn := chanOn d OR CHAN_1\<rparr>)
          (lenEvent 0
            ((\<lambda>s. s\<lparr>chanLenCounter := (chanLenCounter s)(0 := lenCounter64 K 0 s)\<rparr>)
              (useLenWrite 0 v s1)))))"
  from assms have "\<exists>s1. refreshSoundFreq 0 (s\<lparr>chanFreq := (chanFreq s)
               (0 := (chanFreq s 0 AND 0xFF) OR push_bit 8 (uint (v AND 0x7)))\<rparr>) = Some s1 \<and>
      (\<exists>s6. sweepReload K (g s1) = Some s6 \<and>
      (\<exists>s7. refreshSoundVolume K 0 False s6 = Some s7 \<and> sendStartMessage K 0 s7 = Some s'))"
    unfolding reg_14_def g_def by (simp add: bind_eq_Some_conv lift_def)
  then obtain s1 s6 s7 where
    1: "refreshSoundFreq 0 (s\<lparr>chanFreq := (chanFreq s)
               (0 := (chanFreq s 0 AND 0xFF) OR push_bit 8 (uint (v AND 0x7)))\<rparr>) = Some s1"
    and 6: "sweepReload K (g s1) = Some s6"
    and 7: "refreshSoundVolume K 0 False s6 = Some s7"
    and 8: "sendStartMessage K 0 s7 = Some s'"
    by blast
  note a = view_fields [OF framesD [OF frames_refreshSoundFreq 1]]
  note b = sweepReload_fields [OF 6]
  note c = view_fields [OF framesD [OF frames_refreshSoundVolume 7]]
  note d = view_fields [OF framesD [OF frames_sync(1) 8]]
  have s5: "chanOn (sp (g s1)) = chanOn (sp s) OR CHAN_1"
    "chanLenCounter (g s1) 0 = c_div ((64 - chanLen s 0) * clockSpeed K) 256"
    "chanVol (g s1) 0 = uint (drop_bit 4 (readIO (gameboy s) 0x12))"
    "chan1SweepTime (g s1) = chan1SweepTime s" "config (g s1) = config s"
    using a unfolding g_def
    by (simp_all add: useLenWrite_def lenEvent_def setSoundEventCycles_def lenCounter64_def config_def)
  show "chanOn (sp s') = chanOn (sp s) OR CHAN_1" using s5 b c d by simp
  show "chanLenCounter s' 0 = c_div ((64 - chanLen s 0) * clockSpeed K) 256" using s5 b c d by simp
  show "chanVol s' 0 = uint (drop_bit 4 (readIO (gameboy s) 0x12))" using s5 b c d by simp
  show "chan1SweepTime s \<noteq> 0 \<Longrightarrow> sweepPeriod K (chan1SweepTime s) = Some (chan1SweepCounter s')"
    using s5 b c d by simp
  show "message (sp s') = word_of_int (push_bit 20 (GBSND_START_COMMAND K) OR 0)"
    using sendStartMessage_message [OF 8] by simp
  show "config s' = config s" using s5 b c d by simp
qed

lemma reg_19_trigger:
  assumes "v AND 0x80 \<noteq> 0" "reg_19 K v s = Some s'"
  shows "chanOn (sp s') = chanOn (sp s) OR CHAN_2"
    and "chanLenCounter s' 1 = c_div ((64 - chanLen s 1) * clockSpeed K) 256"
    and "chanVol s' 1 = uint (drop_bit 4 (readIO (gameboy s) 0x17))"
    and "message (sp s') = word_of_int (push_bit 20 (GBSND_START_COMMAND K) OR 1)"
    and "config s' = config s"
proof -
  define g where "g = (\<lambda>s1.
      (\<lambda>s. s\<lparr>chanVol := (chanVol s)(1 := uint (drop_bit 4 (readIO (gameboy s) 0x17)))\<rparr>)
        (sp_update (\<lambda>d. d\<lparr>chanOn := chanOn d OR CHAN_2\<rparr>)
          (lenEvent 1
            ((\<lambda>s. s\<lparr>chanLenCounter := (chanLenCounter s)(1 := lenCounter64 K 1 s)\<rparr>)
              (useLenWrite 1 v s1)))))"
  from assms have "\<exists>s1. refreshSoundFreq 1 (s\<lparr>chanFreq := (chanFreq s)
               (1 := (chanFreq s 1 AND 0xFF) OR push_bit 8 (uint (v AND 0x7)))\<rparr>) = Some s1 \<and>
      (\<exists>s7. refreshSoundVolume K 1 False (g s1) = Some s7 \<and> sendStartMessage K 1 s7 = Some s')"
    unfolding reg_19_def g_def by (simp add: bind_eq_Some_conv lift_def)
  then obtain s1 s7 where
    1: "refreshSoundFreq 1 (s\<lparr>chanFreq := (chanFreq s)
               (1 := (chanFreq s 1 AND 0xFF) OR push_bit 8 (uint (v AND 0x7)))\<rparr>) = Some s1"
    and 7: "refreshSoundVolume K 1 False (g s1) = Some s7"
    and 8: "sendStartMessage K 1 s7 = Some s'"
    by blast
  note a = view_fields [OF framesD [OF frames_refreshSoundFreq 1]]
  note c = view_fields [OF framesD [OF frames_refreshSoundVolume 7]]
  note d = view_fields [OF framesD [OF frames_sync(1) 8]]
  have s5: "chanOn (sp (g s1)) = chanOn (sp s) OR CHAN_2"
    "chanLenCounter (g s1) 1 = c_div ((64 - chanLen s 1) * clockSpeed K) 256"
    "chanVol (g s1) 1 = uint (drop_bit 4 (readIO (gameboy s) 0x17))"
    "config (g s1) = config s"
    using a unfolding g_def
    by (simp_all add: useLenWrite_def lenEvent_def setSoundEventCycles_def lenCounter64_def config_def)
  show "chanOn (sp s') = chanOn (sp s) OR CHAN_2" using s5 c d by simp
  show "chanLenCounter s' 1 = c_div ((64 - chanLen s 1) * clockSpeed K) 256" using s5 c d by simp
  show "chanVol s' 1 = uint (drop_bit 4 (readIO (gameboy s) 0x17))" using s5 c d by simp
  show "message (sp s') = word_of_int (push_bit 20 (GBSND_START_COMMAND K) OR 1)"
    using sendStartMessage_message [OF 8] by simp
  show "config s' = config s" using s5 c d by simp
qed

lemma reg_23_trigger:
  assumes "v AND 0x80 \<noteq> 0" "reg_23 K v s = Some s'"
  shows "chanOn (sp s') = chanOn (sp s) OR CHAN_4"
    and "chanLenCounter s' 3 = c_div ((64 - chanLen s 3) * clockSpeed K) 256"
    and "chanVol s' 3 = uint (drop_bit 4 (readIO (gameboy s) 0x21))"
    and "message (sp s') = word_of_int (push_bit 20 (GBSND_START_COMMAND K) OR 3)"
    and "config s' = config s"
proof -
  define g where "g = (\<lambda>s1.
      (\<lambda>s. s\<lparr>chanVol := (chanVol s)(3 := uint (drop_bit 4 (readIO (gameboy s) 0x21)))\<rparr>)
        (sp_update (\<lambda>d. d\<lparr>chanOn := chanOn d OR CHAN_4\<rparr>)
          (lenEvent 3
            ((\<lambda>s. s\<lparr>chanLenCounter := (chanLenCounter s)(3 := lenCounter64 K 3 s)\<rparr>)
              (useLenWrite 3 v s1)))))"
  from assms have "\<exists>s7. refreshSoundVolume K 3 False (g s) = Some s7 \<and>
      sendStartMessage K 3 s7 = Some s'"
    unfolding reg_23_def g_def by (simp add: bind_eq_Some_conv lift_def)
  then obtain s7 where
    7: "refreshSoundVolume K 3 False (g s) = Some s7"
    and 8: "sendStartMessage K 3 s7 = Some s'"
    by blast
  note c = view_fields [OF framesD [OF frames_refreshSoundVolume 7]]
  note d = view_fields [OF framesD [OF frames_sync(1) 8]]
  have s5: "chanOn (sp (g s)) = chanOn (sp s) OR CHAN_4"
    "chanLenCounter (g s) 3 = c_div ((64 - chanLen s 3) * clockSpeed K) 256"
    "chanVol (g s) 3 = uint (drop_bit 4 (readIO (gameboy s) 0x21))"
    "config (g s) = config s"
    unfolding g_def
    by (simp_all add: useLenWrite_def lenEvent_def setSoundEventCycles_def lenCounter64_def config_def)
  show "chanOn (sp s') = chanOn (sp s) OR CHAN_4" using s5 c d by simp
  show "chanLenCounter s' 3 = c_div ((64 - chanLen s 3) * clockSpeed K) 256" using s5 c d by simp
  show "chanVol s' 3 = uint (drop_bit 4 (readIO (gameboy s) 0x21))" using s5 c d by simp
  show "message (sp s') = word_of_int (push_bit 20 (GBSND_START_COMMAND K) OR 3)"
    using sendStartMessage_message [OF 8] by simp
  show "config s' = config s" using s5 c d by simp
qed

lemma reg_1E_Some:
  assumes "reg_1E K v s = Some s'"
  shows "\<exists>s1. refreshSoundFreq 2 (s\<lparr>chanFreq := (chanFreq s)
               (2 := (chanFreq s 2 AND 0xFF) OR push_bit 8 (uint (v AND 7)))\<rparr>) = Some s1 \<and>
     (if v AND 0x80 \<noteq> 0 \<and> readIO (gameboy s) 0x1a AND 0x80 \<noteq> 0
      then block
          [lift (sp_update (\<lambda>d. d\<lparr>chanOn := chanOn d OR CHAN_3\<rparr>)),
           lift (\<lambda>s. s\<lparr>chanLenCounter := (chanLenCounter s)(2 := lenCounter256 K 2 s)\<rparr>),
           lift (lenEvent 2),
           refreshSoundVolume K 2 False,
           sendStartMessage K 2] (useLenWrite 2 v s1) = Some s'
      else sendUpdateMessage K 2 (useLenWrite 2 v s1) = Some s')"
proof -
  from assms obtain s1 where
    1: "refreshSoundFreq 2 (s\<lparr>chanFreq := (chanFreq s)
               (2 := (chanFreq s 2 AND 0xFF) OR push_bit 8 (uint (v AND 7)))\<rparr>) = Some s1"
    and r: "ite (\<lambda>s. v AND 0x80 \<noteq> 0 \<and> readIO (gameboy s) 0x1a AND 0x80 \<noteq> 0)
        (block
          [lift (sp_update (\<lambda>d. d\<lparr>chanOn := chanOn d OR CHAN_3\<rparr>)),
           lift (\<lambda>s. s\<lparr>chanLenCounter := (chanLenCounter s)(2 := lenCounter256 K 2 s)\<rparr>),
           lift (lenEvent 2),
           refreshSoundVolume K 2 False,
           sendStartMessage K 2])
        (sendUpdateMessage K 2) (useLenWrite 2 v s1) = Some s'"
    unfolding reg_1E_def block_Cons_Some lift_Some by (auto simp del: block.simps(2))
  from view_fields(6) [OF framesD [OF frames_refreshSoundFreq 1]]
  have g: "gameboy (useLenWrite 2 v s1) = gameboy s" by (simp add: useLenWrite_def)
  from r g 1 show ?thesis
    by (intro exI [of _ s1]) (auto simp add: ite_def simp del: block.simps split: if_splits)
qed

lemma reg_1E_trigger:
  assumes "v AND 0x80 \<noteq> 0" "readIO (gameboy s) 0x1a AND 0x80 \<noteq> 0" "reg_1E K v s = Some s'"
  shows "chanOn (sp s') = chanOn (sp s) OR CHAN_3"
    and "chanLenCounter s' 2 = c_div ((256 - chanLen s 2) * clockSpeed K) 256"
    and "chanVol s' = chanVol s"
    and "message (sp s') = word_of_int (push_bit 20 (GBSND_START_COMMAND K) OR 2)"
    and "config s' = config s"
proof -
  define g where "g = (\<lambda>s1.
      lenEvent 2
        ((\<lambda>s. s\<lparr>chanLenCounter := (chanLenCounter s)(2 := lenCounter256 K 2 s)\<rparr>)
          (sp_update (\<lambda>d. d\<lparr>chanOn := chanOn d OR CHAN_3\<rparr>) (useLenWrite 2 v s1))))"
  from reg_1E_Some [OF assms(3)] assms(1,2)
  have "\<exists>s1. refreshSoundFreq 2 (s\<lparr>chanFreq := (chanFreq s)
               (2 := (chanFreq s 2 AND 0xFF) OR push_bit 8 (uint (v AND 7)))\<rparr>) = Some s1 \<and>
      (\<exists>s7. refreshSoundVolume K 2 False (g s1) = Some s7 \<and> sendStartMessage K 2 s7 = Some s')"
    unfolding g_def by (simp add: bind_eq_Some_conv lift_def)
  then obtain s1 s7 where
    1: "refreshSoundFreq 2 (s\<lparr>chanFreq := (chanFreq s)
               (2 := (chanFreq s 2 AND 0xFF) OR push_bit 8 (uint (v AND 7)))\<rparr>) = Some s1"
    and 7: "refreshSoundVolume K 2 False (g s1) = Some s7"
    and 8: "sendStartMessage K 2 s7 = Some s'"
    by blast
  note a = view_fields [OF framesD [OF frames_refreshSoundFreq 1]]
  note c = view_fields [OF framesD [OF frames_refreshSoundVolume 7]]
  note d = view_fields [OF framesD [OF frames_sync(1) 8]]
  have s5: "chanOn (sp (g s1)) = chanOn (sp s) OR CHAN_3"
    "chanLenCounter (g s1) 2 = c_div ((256 - chanLen s 2) * clockSpeed K) 256"
    "chanVol (g s1) = chanVol s"
    "config (g s1) = config s"
    using a unfolding g_def
    by (simp_all add: useLenWrite_def lenEvent_def setSoundEventCycles_def lenCounter256_def config_def)
  show "chanOn (sp s') = chanOn (sp s) OR CHAN_3" using s5 c d by simp
  show "chanLenCounter s' 2 = c_div ((256 - chanLen s 2) * clockSpeed K) 256" using s5 c d by simp
  show "chanVol s' = chanVol s" using s5 c d by simp
  show "message (sp s') = word_of_int (push_bit 20 (GBSND_START_COMMAND K) OR 2)"
    using sendStartMessage_message [OF 8] by simp
  show "config s' = config s" using s5 c d by simp
qed

lemma reg_1E_gated:
  assumes "readIO (gameboy s) 0x1a AND 0x80 = 0" "reg_1E K v s = Some s'"
  shows "chanOn (sp s') = chanOn (sp s)"
    and "chanLenCounter s' = chanLenCounter s"
    and "chanVol s' = chanVol s"
    and "message (sp s') = word_of_int (push_bit 20 (GBSND_UPDATE_COMMAND K) OR 2)"
proof -
  from reg_1E_Some [OF assms(2)] assms(1) obtain s1 where
    1: "refreshSoundFreq 2 (s\<lparr>chanFreq := (chanFreq s)
               (2 := (chanFreq s 2 AND 0xFF) OR push_bit 8 (uint (v AND 7)))\<rparr>) = Some s1"
    and 8: "sendUpdateMessage K 2 (useLenWrite 2 v s1) = Some s'"
    by auto
  note a = view_fields [OF framesD [OF frames_refreshSoundFreq 1]]
  note d = view_fields [OF framesD [OF frames_sync(2) 8]]
  show "chanOn (sp s') = chanOn (sp s)" using a d by (simp add: useLenWrite_def)
  show "chanLenCounter s' = chanLenCounter s" using a d by (simp add: useLenWrite_def)
  show "chanVol s' = chanVol s" using a d by (simp add: useLenWrite_def)
  show "message (sp s') = word_of_int (push_bit 20 (GBSND_UPDATE_COMMAND K) OR 2)"
    using sendUpdateMessage_message [OF 8] by simp
qed

subsection \<open>Register writes return\<close>

lemma mask_low: "(f AND 0x700) OR uint (v :: u8) \<noteq> (2048 :: int)"
proof -
  have "0 \<le> f AND 0x700" by (simp add: and_nonnegative_int_iff)
  moreover have "f AND 0x700 < 2 ^ 11" by (rule AND_upper2'') simp_all
  moreover have "uint v < 2 ^ 11" using uint_lt2p [of v] by simp
  ultimately have "(f AND 0x700) OR uint v < 2 ^ 11" by (rule OR_upper)
  then show ?thesis by simp
qed

lemma mask_high: "(f AND 0xFF) OR push_bit 8 (uint ((v :: u8) AND 7)) \<noteq> (2048 :: int)"
proof -
  have "0 \<le> f AND 0xFF" by (simp add: and_nonnegative_int_iff)
  moreover have "f AND 0xFF < 2 ^ 11" by (rule AND_upper2'') simp_all
  moreover have "push_bit 8 (uint (v AND 7)) < 2 ^ 11"
    using uint_and7_bounds [of v] by (simp add: push_bit_eq_mult)
  ultimately have "(f AND 0xFF) OR push_bit 8 (uint (v AND 7)) < 2 ^ 11" by (rule OR_upper)
  then show ?thesis by simp
qed

lemma mask_wave:
  assumes "0 \<le> f" "f \<le> 0x7FF"
  shows "(f AND 0xFF00) OR uint (v :: u8) \<noteq> (2048 :: int)"
    and "0 \<le> (f AND 0xFF00) OR uint v" and "(f AND 0xFF00) OR uint v \<le> 0x7FF"
proof -
  have a: "0 \<le> f AND 0xFF00" by (simp add: and_nonnegative_int_iff)
  moreover have "f AND 0xFF00 < 2 ^ 11" by (rule AND_upper1'') (use assms in simp_all)
  moreover have "uint v < 2 ^ 11" using uint_lt2p [of v] by simp
  ultimately have "(f AND 0xFF00) OR uint v < 2 ^ 11" by (rule OR_upper)
  then show "(f AND 0xFF00) OR uint v \<noteq> (2048 :: int)" "(f AND 0xFF00) OR uint v \<le> 0x7FF"
    by simp_all
  from a show "0 \<le> (f AND 0xFF00) OR uint v" by (simp add: or_nonnegative_int_iff)
qed

lemma mask_wave_high: "0 \<le> (f AND 0xFF) OR push_bit 8 (uint ((v :: u8) AND 7)) \<and>
    (f AND 0xFF) OR push_bit 8 (uint (v AND 7)) \<le> (0x7FF :: int)"
proof -
  have a: "0 \<le> f AND 0xFF" by (simp add: and_nonnegative_int_iff)
  moreover have "f AND 0xFF < 2 ^ 11" by (rule AND_upper2'') simp_all
  moreover have "push_bit 8 (uint (v AND 7)) < 2 ^ 11"
    using uint_and7_bounds [of v] by (simp add: push_bit_eq_mult)
  ultimately have "(f AND 0xFF) OR push_bit 8 (uint (v AND 7)) < 2 ^ 11" by (rule OR_upper)
  with a show ?thesis by (simp add: or_nonnegative_int_iff)
qed

lemma synchronizeSound_immediate:
  assumes "muted s \<or> \<not> hyperSound_sd (sp s)"
  shows "synchronizeSound s = Some (if muted s then s else FIFO_SEND (message (sp s)) s)"
  using assms by (auto simp: synchronizeSound_def)

lemma total_sync:
  "total Ready (sendStartMessage K i)" "total Ready (sendUpdateMessage K i)"
  "total Ready (sendGlobalVolumeMessage K)"
  unfolding total_def sendStartMessage_def sendUpdateMessage_def sendGlobalVolumeMessage_def Let_def
  by (intro allI impI, subst synchronizeSound_immediate, simp add: Ready_def, simp)+

lemma total_refreshSoundVolume: "total Ready (refreshSoundVolume K i send)"
  unfolding total_def
proof (intro allI impI)
  fix s
  assume r: "Ready s"
  have "synchronizeSound
               (sp_update (\<lambda>d. d\<lparr>chanRealVol := (chanRealVol d)(i := chanVol s i),
                     message := word_of_int (push_bit 20 (GBSND_VOLUME_COMMAND K) OR int i)\<rparr>) s) \<noteq> None"
    by (subst synchronizeSound_immediate) (use r in \<open>simp_all add: Ready_def\<close>)
  then show "refreshSoundVolume K i send s \<noteq> None"
    by (simp add: refreshSoundVolume_def Let_def)
qed

lemma total_sweepReload: "total Ready (sweepReload K)"
  unfolding total_def
proof (intro allI impI)
  fix s
  assume r: "Ready s"
  show "sweepReload K s \<noteq> None"
  proof (cases "chan1SweepTime s = 0")
    case True
    then show ?thesis by (simp add: sweepReload_def)
  next
    case False
    with r have "1 \<le> chan1SweepTime s" "chan1SweepTime s \<le> 128" by (simp_all add: Ready_def)
    from sweepPeriod_Some [OF this, of K] False show ?thesis
      by (auto simp: sweepReload_def)
  qed
qed

lemma total_lift: "total I (lift f)"
  by (simp add: total_def lift_def)

lemma total_block_Nil: "total I (block [])"
  by (simp add: total_def)

lemma total_block_Cons:
  assumes "total I f" "pres I f" "total I (block fs)"
  shows "total I (block (f # fs))"
  unfolding total_def
proof (intro allI impI)
  fix s
  assume i: "I s"
  with assms(1) obtain s1 where 1: "f s = Some s1" unfolding total_def by auto
  with assms(2) i have "I s1" unfolding pres_def by blast
  with assms(3) have "block fs s1 \<noteq> None" unfolding total_def by blast
  with 1 show "block (f # fs) s \<noteq> None" by simp
qed

lemma total_block_freq:
  assumes g: "\<And>s. I s \<Longrightarrow> I (g s)" and n: "\<And>s. I s \<Longrightarrow> 2048 - chanFreq (g s) i \<noteq> 0"
    and i: "i \<le> 2" and p: "pres I (refreshSoundFreq i)" and t: "total I (block fs)"
  shows "total I (block (lift g # refreshSoundFreq i # fs))"
  unfolding total_def
proof (intro allI impI)
  fix s
  assume a: "I s"
  from n [OF a] i have "refreshSoundFreq i (g s) \<noteq> None"
    by (simp add: refreshSoundFreq_def)
  then obtain s1 where 1: "refreshSoundFreq i (g s) = Some s1" by blast
  with p g [OF a] have "I s1" unfolding pres_def by blast
  with t have "block fs s1 \<noteq> None" unfolding total_def by blast
  with 1 show "block (lift g # refreshSoundFreq i # fs) s \<noteq> None" by (simp add: lift_def)
qed

lemma total_ite: "total I f \<Longrightarrow> total I g \<Longrightarrow> total I (ite b f g)"
  unfolding total_def ite_def by simp

lemma total_if: "(c \<Longrightarrow> total I f) \<Longrightarrow> (\<not> c \<Longrightarrow> total I g) \<Longrightarrow> total I (if c then f else g)"
  by (cases c) simp_all

lemma view_Ready: "view s' = view s \<Longrightarrow> Ready s \<Longrightarrow> Ready s'"
  by (simp add: view_def Ready_def locals_def config_def)

lemma pres_Ready_prims:
  "pres Ready (sendStartMessage K j)" "pres Ready (sendUpdateMessage K j)"
  "pres Ready (sendGlobalVolumeMessage K)" "pres Ready (refreshSoundFreq i)"
  "pres Ready (refreshSoundVolume K i send)"
  by (rule pres_prims [of Ready], erule view_Ready, assumption)+

lemma pres_Ready_sweepReload: "pres Ready (sweepReload K)"
  by (rule pres_sweepReload) (simp add: Ready_def setSoundEventCycles_def)

lemma noiseRatio_nonzero: "noiseRatio v \<noteq> 0"
  by (simp add: noiseRatio_def)

lemma total_reg_22: "total Ready (reg_22 K v)"
  unfolding total_def
proof (intro allI impI)
  fix s
  assume r: "Ready s"
  define s2 where "s2 = sp_update (\<lambda>d. d\<lparr>lfsr7Bit := v AND 0x8\<rparr>)
     (s\<lparr>chanFreq := (chanFreq s)(3 := uint (drop_bit 4 v)), chan4FreqRatio := noiseRatio v\<rparr>)"
  have "refreshSoundFreq 3 s2 \<noteq> None"
    by (simp add: refreshSoundFreq_def s2_def noiseRatio_nonzero)
  then obtain s3 where 3: "refreshSoundFreq 3 s2 = Some s3" by blast
  from r have "Ready s2" by (simp add: s2_def Ready_def)
  with 3 pres_Ready_prims(4) [of 3] have "Ready s3" unfolding pres_def by blast
  with total_sync(2) [of K 3] have "sendUpdateMessage K 3 s3 \<noteq> None" unfolding total_def by blast
  with 3 show "reg_22 K v s \<noteq> None"
    by (simp add: reg_22_def lift_def s2_def)
qed

lemmas total_rules = total_block_Nil total_block_freq total_block_Cons total_ite total_if total_lift

lemmas reg_defs_22 = reg_10_def reg_11_def reg_12_def reg_13_def reg_14_def reg_16_def reg_17_def
  reg_18_def reg_19_def reg_1A_def reg_1B_def reg_1C_def reg_1D_def reg_1E_def reg_20_def
  reg_21_def reg_23_def reg_24_def reg_25_def reg_26_def

lemma pres_Ready_handle: "pres Ready (handleSoundRegister K r v)"
  unfolding handleSoundRegister_def reg_defs
  by (intro pres_rules pres_Ready_prims pres_Ready_sweepReload)
     (simp_all add: Ready_def pure_defs Let_def uint_and7_bounds mask_wave mask_wave_high)

lemma total_Ready_handle: "total Ready (handleSoundRegister K r v)"
  unfolding handleSoundRegister_def reg_defs_22
  by (intro total_rules pres_rules total_sync total_refreshSoundVolume total_sweepReload
        total_reg_22 pres_Ready_prims pres_Ready_sweepReload)
     (simp_all add: Ready_def pure_defs Let_def uint_and7_bounds mask_low mask_high mask_wave
        mask_wave_high)

lemma handle_trigger_square:
  assumes "i < 4" "i \<noteq> 2" "v AND 0x80 \<noteq> 0" "handleSoundRegister K (trigReg i) v s = Some s'"
  shows "chanOn (sp s') = chanOn (sp s) OR chanMask i"
    and "chanLenCounter s' i = c_div ((64 - chanLen s i) * clockSpeed K) 256"
    and "chanVol s' i = uint (drop_bit 4 (readIO (gameboy s) (envReg i)))"
    and "message (sp s') = word_of_int (push_bit 20 (GBSND_START_COMMAND K) OR int i)"
    and "i = 0 \<Longrightarrow> chan1SweepTime s \<noteq> 0 \<Longrightarrow>
           sweepPeriod K (chan1SweepTime s) = Some (chan1SweepCounter s')"
proof -
  from assms(1,2) consider "i = 0" | "i = 1" | "i = 3" by arith
  then have "chanOn (sp s') = chanOn (sp s) OR chanMask i \<and>
    chanLenCounter s' i = c_div ((64 - chanLen s i) * clockSpeed K) 256 \<and>
    chanVol s' i = uint (drop_bit 4 (readIO (gameboy s) (envReg i))) \<and>
    message (sp s') = word_of_int (push_bit 20 (GBSND_START_COMMAND K) OR int i) \<and>
    (i = 0 \<longrightarrow> chan1SweepTime s \<noteq> 0 \<longrightarrow>
           sweepPeriod K (chan1SweepTime s) = Some (chan1SweepCounter s'))"
  proof cases
    case 1
    with assms(4) have r: "reg_14 K v s = Some s'"
      by (simp add: handleSoundRegister_def trigReg_def)
    from reg_14_trigger [OF assms(3) r] 1 show ?thesis
      by (simp add: chanMask_def envReg_def)
  next
    case 2
    with assms(4) have r: "reg_19 K v s = Some s'"
      by (simp add: handleSoundRegister_def trigReg_def)
    from reg_19_trigger [OF assms(3) r] 2 show ?thesis
      by (simp add: chanMask_def envReg_def)
  next
    case 3
    with assms(4) have r: "reg_23 K v s = Some s'"
      by (simp add: handleSoundRegister_def trigReg_def)
    from reg_23_trigger [OF assms(3) r] 3 show ?thesis
      by (simp add: chanMask_def envReg_def)
  qed
  then show "chanOn (sp s') = chanOn (sp s) OR chanMask i"
    and "chanLenCounter s' i = c_div ((64 - chanLen s i) * clockSpeed K) 256"
    and "chanVol s' i = uint (drop_bit 4 (readIO (gameboy s) (envReg i)))"
    and "message (sp s') = word_of_int (push_bit 20 (GBSND_START_COMMAND K) OR int i)"
    and "i = 0 \<Longrightarrow> chan1SweepTime s \<noteq> 0 \<Longrightarrow>
           sweepPeriod K (chan1SweepTime s) = Some (chan1SweepCounter s')"
    by simp_all
qed


lemma chanMask_nonzero: "chanMask i \<noteq> 0"
  by (simp add: chanMask_def CHAN_1_def CHAN_2_def CHAN_3_def CHAN_4_def)





subsection \<open>Disabling through the master register\<close>

lemma sp_update_twice: "sp_update f (sp_update g s) = sp_update (\<lambda>d. f (g d)) s"
  by (simp add: sp_update_def split: shared_ref.splits)

lemma reg_26_Some:
  assumes "v AND 0x80 = 0" "handleSoundRegister K 0x26 v s = Some s'"
  shows "synchronizeSound (sp_update (\<lambda>d. d\<lparr>chanOn := 0, message := updateAll K\<rparr>) s) = Some s'"
  using assms
  by (simp add: handleSoundRegister_def reg_26_def lift_def sendUpdateMessage_def updateAll_def
      sp_update_twice)

lemma reg_26_disable:
  assumes "v AND 0x80 = 0" "handleSoundRegister K 0x26 v s = Some s'"
  shows "chanOn (sp s') = 0" "message (sp s') = updateAll K" "locals s' = locals s"
    "config s' = config s"
    "committed (sp s') = committed ((sp s)\<lparr>chanOn := 0, message := updateAll K\<rparr>)"
  using synchronizeSound_sp [OF reg_26_Some [OF assms]]
  by (simp_all add: committed_def)

lemma reg_26_again:
  assumes "v AND 0x80 = 0" "w AND 0x80 = 0" "handleSoundRegister K 0x26 v s = Some s'"
    "handleSoundRegister K 0x26 w s' = Some s''"
  shows "committed (sp s'') = committed (sp s')"
  using reg_26_disable(1,2) [OF assms(1,3)] reg_26_disable(5) [OF assms(2,4)]
  by (simp add: committed_def)

lemma outstanding_sp_update:
  assumes "\<And>d. fifosSent (f d) = fifosSent d" "\<And>d. fifosReceived (f d) = fifosReceived d"
  shows "outstanding (sp_update f s) = outstanding s"
  using assms by (simp add: outstanding_def sp_update_def split: shared_ref.splits)

lemma reg_26_enqueues:
  assumes "v AND 0x80 = 0" "\<not> muted s" "\<not> hyperSound_sd (sp s)" "outstanding s < MAX_FIFOS_WAITING"
    "handleSoundRegister K 0x26 v s = Some s'"
  shows "fifo s' = fifo s @ [updateAll K]" "outstanding s' = outstanding s + 1"
proof -
  let ?t = "sp_update (\<lambda>d. d\<lparr>chanOn := 0, message := updateAll K\<rparr>) s"
  have o: "outstanding ?t = outstanding s" by (rule outstanding_sp_update) simp_all
  have "synchronizeSound ?t = Some (FIFO_SEND (message (sp ?t)) ?t)"
    by (subst synchronizeSound_immediate) (use assms(2,3) in simp_all)
  with reg_26_Some [OF assms(1,5)] have s': "s' = FIFO_SEND (updateAll K) ?t" by simp
  from assms(4) o have b: "outstanding ?t < MAX_FIFOS_WAITING" by simp
  show "fifo s' = fifo s @ [updateAll K]"
    unfolding s' FIFO_SEND_below [OF b] by simp
  show "outstanding s' = outstanding s + 1"
    unfolding s' FIFO_SEND_below [OF b] using o by (simp add: outstanding_def)
qed

text \<open>C6 (as amended): a write to the master-enable register 0x26 with bit 7 clear zeroes
  the whole channel-on bitmask and writes the global Update message into the message slot
  for delivery, changing no local field. A second consecutive disable write leaves the
  bitmask zero and the local fields and the committed parameters of the shared block as
  they are; but it emits a further global Update: in best-effort mode, not muted and below
  the threshold, each disable write enqueues one message and increments the count of
  outstanding messages. The write returns from every state of \<open>Ready\<close>.\<close>

theorem master_disable:
  "(v AND 0x80 = 0 \<and> handleSoundRegister K 0x26 v s = Some s' \<longrightarrow>
      chanOn (sp s') = 0 \<and> message (sp s') = updateAll K \<and>
      locals s' = locals s \<and> config s' = config s) \<and>
   (v AND 0x80 = 0 \<and> w AND 0x80 = 0 \<and> handleSoundRegister K 0x26 v s = Some s' \<and>
    handleSoundRegister K 0x26 w s' = Some s'' \<longrightarrow>
      chanOn (sp s'') = 0 \<and> locals s'' = locals s' \<and> config s'' = config s' \<and>
      committed (sp s'') = committed (sp s')) \<and>
   (v AND 0x80 = 0 \<and> \<not> muted s \<and> \<not> hyperSound_sd (sp s) \<and>
    outstanding s < MAX_FIFOS_WAITING \<and> handleSoundRegister K 0x26 v s = Some s' \<longrightarrow>
      fifo s' = fifo s @ [updateAll K] \<and> outstanding s' = outstanding s + 1) \<and>
   (Ready s \<longrightarrow> handleSoundRegister K 0x26 v s \<noteq> None)"
proof (intro conjI impI)
  assume a: "v AND 0x80 = 0 \<and> handleSoundRegister K 0x26 v s = Some s'"
  then have t: "v AND 0x80 = 0" "handleSoundRegister K 0x26 v s = Some s'" by simp_all
  show "chanOn (sp s') = 0" "message (sp s') = updateAll K" "locals s' = locals s"
    "config s' = config s"
    by (rule reg_26_disable [OF t])+
next
  assume a: "v AND 0x80 = 0 \<and> w AND 0x80 = 0 \<and> handleSoundRegister K 0x26 v s = Some s' \<and>
    handleSoundRegister K 0x26 w s' = Some s''"
  then have t: "v AND 0x80 = 0" "w AND 0x80 = 0" "handleSoundRegister K 0x26 v s = Some s'"
    "handleSoundRegister K 0x26 w s' = Some s''" by simp_all
  show "chanOn (sp s'') = 0" "locals s'' = locals s'" "config s'' = config s'"
    by (rule reg_26_disable [OF t(2,4)])+
  show "committed (sp s'') = committed (sp s')" by (rule reg_26_again [OF t])
next
  assume a: "v AND 0x80 = 0 \<and> \<not> muted s \<and> \<not> hyperSound_sd (sp s) \<and>
    outstanding s < MAX_FIFOS_WAITING \<and> handleSoundRegister K 0x26 v s = Some s'"
  then have t: "v AND 0x80 = 0" "\<not> muted s" "\<not> hyperSound_sd (sp s)"
    "outstanding s < MAX_FIFOS_WAITING" "handleSoundRegister K 0x26 v s = Some s'" by simp_all
  show "fifo s' = fifo s @ [updateAll K]" "outstanding s' = outstanding s + 1"
    by (rule reg_26_enqueues [OF t])+
next
  assume "Ready s"
  with total_Ready_handle [of K "0x26" v] show "handleSoundRegister K 0x26 v s \<noteq> None"
    unfolding total_def by blast
qed

theorem master_disable_counterexample:
  "handleSoundRegister K0 0x26 0 state0 \<noteq> None \<and>
   handleSoundRegister K0 0x26 0 (the (handleSoundRegister K0 0x26 0 state0)) \<noteq> None \<and>
   fifo (the (handleSoundRegister K0 0x26 0 state0)) = [4] \<and>
   fifo (the (handleSoundRegister K0 0x26 0 (the (handleSoundRegister K0 0x26 0 state0)))) = [4, 4]"
  by (simp add: eval_defs state0_defs)

theorem master_disable_witness:
  "Ready state0 \<and>
   chanOn (sp (the (handleSoundRegister K0 0x26 0 state0))) = 0 \<and>
   fifo (the (handleSoundRegister K0 0x26 0 state0)) = [updateAll K0] \<and>
   outstanding (the (handleSoundRegister K0 0x26 0
      (the (handleSoundRegister K0 0x26 0 state0)))) = 2 \<and>
   committed (sp (the (handleSoundRegister K0 0x26 0
      (the (handleSoundRegister K0 0x26 0 state0))))) =
     committed (sp (the (handleSoundRegister K0 0x26 0 state0)))"
proof -
  have r: "Ready state0" by (simp add: Ready_def state0_defs sp_def)
  have z: "(0 :: u8) AND 0x80 = 0" by simp
  from master_disable [of 0 K0 state0 s' w s'' for s' w s''] r
  obtain s1 where s1: "handleSoundRegister K0 0x26 0 state0 = Some s1" by blast
  from pres_Ready_handle [of K0 "0x26" 0] r s1 have r1: "Ready s1" unfolding pres_def by blast
  with master_disable [of 0 K0 s1 s' w s'' for s' w s'']
  obtain s2 where s2: "handleSoundRegister K0 0x26 0 s1 = Some s2" by blast
  have o: "outstanding state0 = 0" "\<not> muted state0" "\<not> hyperSound_sd (sp state0)"
    "fifo state0 = []"
    by (simp_all add: outstanding_def state0_defs sp_def)
  from master_disable [of 0 K0 state0 s1 0 s2] s1 s2 o z
  have a: "chanOn (sp s1) = 0 \<and> fifo s1 = [updateAll K0] \<and> outstanding s1 = 1 \<and>
    committed (sp s2) = committed (sp s1) \<and> config s1 = config state0 \<and>
    message (sp s1) = updateAll K0"
    by (simp add: MAX_FIFOS_WAITING_def)
  then have m: "\<not> muted s1" using o by (simp add: config_def)
  from r1 m have h: "\<not> hyperSound_sd (sp s1)" by (simp add: Ready_def)
  from master_disable [of 0 K0 s1 s2 0 s2] s2 a m h z
  have b: "outstanding s2 = 2" by (simp add: MAX_FIFOS_WAITING_def)
  from a b r s1 s2 show ?thesis by simp
qed

subsection \<open>The synchronisation fallback\<close>

lemma synchronizeSound_fallback:
  assumes "\<not> muted s"
    "frameFlip_Gameboy (sp s) \<noteq> frameFlip_DS (sp s) \<or> syncCycles s \<le> dsCycles (sp s)"
  shows "synchronizeSound s = Some (FIFO_SEND (message (sp s)) s)"
  using assms by (auto simp: synchronizeSound_def)

lemma wait_arm7_abort:
  assumes "cycles (sp s) \<noteq> - 1" "scaleTransferReady (sp s)"
  shows "wait_arm7 s = Some (FIFO_SEND (message (sp s)) (sp_update (\<lambda>d. d\<lparr>cycles := - 1\<rparr>) s))"
  using assms by (subst wait_arm7.simps) simp

lemma wait_arm7_idle:
  assumes "cycles (sp s) \<noteq> - 1" "\<not> scaleTransferReady (sp s)" "arm7 s = Arm7_Idle # es"
  shows "wait_arm7 s = wait_arm7 (s\<lparr>arm7 := es\<rparr>)"
  using assms by (subst wait_arm7.simps) (simp add: arm7_step_def)

lemma sp_arm7_update [simp]: "sp (s\<lparr>arm7 := es\<rparr>) = sp s"
  by (simp add: sp_def split: shared_ref.splits)

lemma wait_arm7_idles:
  assumes "cycles (sp s) \<noteq> - 1" "\<not> scaleTransferReady (sp s)"
    "arm7 s = replicate n Arm7_Idle @ es"
  shows "wait_arm7 s = wait_arm7 (s\<lparr>arm7 := es\<rparr>)"
  using assms
proof (induction n arbitrary: s)
  case 0
  then have "s\<lparr>arm7 := es\<rparr> = s" by (cases s) simp
  then show ?case by simp
next
  case (Suc n)
  from Suc.prems have "wait_arm7 s = wait_arm7 (s\<lparr>arm7 := replicate n Arm7_Idle @ es\<rparr>)"
    by (intro wait_arm7_idle) simp_all
  also have "\<dots> = wait_arm7 (s\<lparr>arm7 := replicate n Arm7_Idle @ es\<rparr>\<lparr>arm7 := es\<rparr>)"
    using Suc.prems by (intro Suc.IH) simp_all
  finally show ?case by simp
qed

lemma wait_arm7_transfer:
  assumes "sharedPtr s = PtrSharedData" "cycles (sharedData s) \<noteq> - 1"
    "\<not> scaleTransferReady (sharedData s)" "arm7 s = replicate n Arm7_Idle @ Arm7_ScaleTransfer # es"
  shows "wait_arm7 s = Some (FIFO_SEND (message (sharedData s))
     (s\<lparr>arm7 := es, sharedData := (sharedData s)\<lparr>scaleTransferReady := True, cycles := - 1\<rparr>\<rparr>))"
proof -
  from assms(1) have p: "sp s = sharedData s" by (simp add: sp_def)
  let ?t = "s\<lparr>arm7 := Arm7_ScaleTransfer # es\<rparr>"
  let ?u = "s\<lparr>arm7 := es, sharedData := (sharedData s)\<lparr>scaleTransferReady := True\<rparr>\<rparr>"
  have "wait_arm7 s = wait_arm7 ?t"
    using assms p by (intro wait_arm7_idles [where n = n]) simp_all
  also have "\<dots> = wait_arm7 ?u"
    using assms p by (subst wait_arm7.simps) (simp add: arm7_step_def sp_def)
  also have "\<dots> = Some (FIFO_SEND (message (sp ?u)) (sp_update (\<lambda>d. d\<lparr>cycles := - 1\<rparr>) ?u))"
    using assms by (intro wait_arm7_abort) (simp_all add: sp_def)
  finally show ?thesis using assms(1) by (simp add: sp_def sp_update_def)
qed

lemma synchronizeSound_waits:
  assumes "waits s"
  shows "synchronizeSound s = wait_arm7 (sp_update (\<lambda>d. d\<lparr>cycles := syncCycles s\<rparr>) s)"
  using assms by (auto simp: synchronizeSound_def waits_def)

lemma synchronizeSound_transfer:
  assumes "waits s" "sharedPtr s = PtrSharedData" "syncCycles s \<noteq> - 1"
    "arm7 s = replicate n Arm7_Idle @ Arm7_ScaleTransfer # es"
  shows "synchronizeSound s = Some (FIFO_SEND (message (sharedData s))
     (s\<lparr>arm7 := es, sharedData := (sharedData s)\<lparr>scaleTransferReady := True, cycles := - 1\<rparr>\<rparr>))"
proof -
  let ?t = "sp_update (\<lambda>d. d\<lparr>cycles := syncCycles s\<rparr>) s"
  from assms(1,2) have r: "\<not> scaleTransferReady (sharedData s)" by (simp add: waits_def sp_def)
  have "wait_arm7 ?t = Some (FIFO_SEND (message (sharedData ?t))
     (?t\<lparr>arm7 := es, sharedData := (sharedData ?t)\<lparr>scaleTransferReady := True, cycles := - 1\<rparr>\<rparr>))"
    using assms(2-4) r by (intro wait_arm7_transfer [where n = n]) (simp_all add: sp_update_def)
  then show ?thesis
    unfolding synchronizeSound_waits [OF assms(1)] using assms(2) by (simp add: sp_update_def)
qed

text \<open>C9 (as amended): while the engine is not muted, in cycle-accurate mode as in any
  other, whenever the two frame-flip flags differ or the rendering core's acknowledged
  cycle position is at or past the emulation core's cycle count (halved under double
  speed), \<open>synchronizeSound\<close> returns at once with the message handed to the bounded
  channel and never enters the cycle-wait. When the transfer flag is seen during the wait,
  the wait ends there: the cycle field is reset to the sentinel and the message is handed
  to the bounded channel; in particular when the rendering core, after any number of idle
  rounds, raises the flag. A muted engine delivers nothing and returns unchanged.\<close>

theorem sync_fallback_immediate:
  "(\<not> muted s \<and> (frameFlip_Gameboy (sp s) \<noteq> frameFlip_DS (sp s) \<or> syncCycles s \<le> dsCycles (sp s)) \<longrightarrow>
      synchronizeSound s = Some (FIFO_SEND (message (sp s)) s)) \<and>
   (cycles (sp s) \<noteq> - 1 \<and> scaleTransferReady (sp s) \<longrightarrow>
      wait_arm7 s = Some (FIFO_SEND (message (sp s)) (sp_update (\<lambda>d. d\<lparr>cycles := - 1\<rparr>) s))) \<and>
   (waits s \<and> sharedPtr s = PtrSharedData \<and> syncCycles s \<noteq> - 1 \<and>
    arm7 s = replicate n Arm7_Idle @ Arm7_ScaleTransfer # es \<longrightarrow>
      synchronizeSound s = Some (FIFO_SEND (message (sharedData s))
        (s\<lparr>arm7 := es, sharedData := (sharedData s)\<lparr>scaleTransferReady := True, cycles := - 1\<rparr>\<rparr>))) \<and>
   (muted s \<longrightarrow> synchronizeSound s = Some s)"
proof (intro conjI impI)
  assume "\<not> muted s \<and> (frameFlip_Gameboy (sp s) \<noteq> frameFlip_DS (sp s) \<or> syncCycles s \<le> dsCycles (sp s))"
  then show "synchronizeSound s = Some (FIFO_SEND (message (sp s)) s)"
    by (intro synchronizeSound_fallback) simp_all
next
  assume "cycles (sp s) \<noteq> - 1 \<and> scaleTransferReady (sp s)"
  then show "wait_arm7 s = Some (FIFO_SEND (message (sp s)) (sp_update (\<lambda>d. d\<lparr>cycles := - 1\<rparr>) s))"
    by (intro wait_arm7_abort) simp_all
next
  assume "waits s \<and> sharedPtr s = PtrSharedData \<and> syncCycles s \<noteq> - 1 \<and>
    arm7 s = replicate n Arm7_Idle @ Arm7_ScaleTransfer # es"
  then show "synchronizeSound s = Some (FIFO_SEND (message (sharedData s))
        (s\<lparr>arm7 := es, sharedData := (sharedData s)\<lparr>scaleTransferReady := True, cycles := - 1\<rparr>\<rparr>))"
    by (intro synchronizeSound_transfer) simp_all
next
  assume "muted s"
  then show "synchronizeSound s = Some s" by (simp add: synchronizeSound_def)
qed

theorem sync_fallback_immediate_counterexample:
  "hyperSound state_muted \<and> hyperSound_sd (sharedData state_muted) \<and>
   hyperSound_sd (sp state_muted) \<and>
   frameFlip_Gameboy (sp state_muted) \<noteq> frameFlip_DS (sp state_muted) \<and>
   frameFlip_Gameboy (sharedData state_muted) \<noteq> frameFlip_DS (sharedData state_muted) \<and>
   synchronizeSound state_muted = Some state_muted \<and>
   fifo state_muted = [] \<and>
   fifo (FIFO_SEND (message (sp state_muted)) state_muted) = [0x100000]"
  by (simp add: state_muted_def mute_def synchronizeSound_def FIFO_SEND_def
      MAX_FIFOS_WAITING_def sp_def state0_defs)

theorem sync_fallback_immediate_witness:
  "waits state_wait \<and>
   fifo (the (synchronizeSound state_wait)) = [0x100001] \<and>
   arm7 (the (synchronizeSound state_wait)) = [Arm7_Ack] \<and>
   cycles (sharedData (the (synchronizeSound state_wait))) = - 1 \<and>
   fifo (the (synchronizeSound (state_wait\<lparr>sharedData :=
      (sharedData state_wait)\<lparr>frameFlip_DS := True\<rparr>\<rparr>))) = [0x100001] \<and>
   fifo (the (wait_arm7 (state_wait\<lparr>sharedData :=
      (sharedData state_wait)\<lparr>scaleTransferReady := True, cycles := 500\<rparr>\<rparr>))) = [0x100001] \<and>
   synchronizeSound state_muted = Some state_muted"
proof -
  let ?f = "state_wait\<lparr>sharedData := (sharedData state_wait)\<lparr>frameFlip_DS := True\<rparr>\<rparr>"
  let ?r = "state_wait\<lparr>sharedData :=
      (sharedData state_wait)\<lparr>scaleTransferReady := True, cycles := 500\<rparr>\<rparr>"
  have w: "waits state_wait" "sharedPtr state_wait = PtrSharedData"
    "syncCycles state_wait \<noteq> - 1"
    "arm7 state_wait = replicate 2 Arm7_Idle @ Arm7_ScaleTransfer # [Arm7_Ack]"
    by (simp_all add: waits_def state_wait_def syncCycles_def sp_def state0_defs
        numeral_2_eq_2)
  have f: "\<not> muted ?f" "frameFlip_Gameboy (sp ?f) \<noteq> frameFlip_DS (sp ?f)"
    by (simp_all add: state_wait_def sp_def state0_defs)
  have r: "cycles (sp ?r) \<noteq> - 1" "scaleTransferReady (sp ?r)"
    by (simp_all add: state_wait_def sp_def state0_defs)
  have m: "muted state_muted" by (simp add: state_muted_def mute_def)
  have a: "synchronizeSound state_wait = Some (FIFO_SEND (message (sharedData state_wait))
        (state_wait\<lparr>arm7 := [Arm7_Ack], sharedData := (sharedData state_wait)\<lparr>scaleTransferReady := True, cycles := - 1\<rparr>\<rparr>))"
    using sync_fallback_immediate [of state_wait 2 "[Arm7_Ack]"] w by blast
  have b: "synchronizeSound ?f = Some (FIFO_SEND (message (sp ?f)) ?f)"
    using sync_fallback_immediate [of ?f 0 "[]"] f by blast
  have c: "wait_arm7 ?r = Some (FIFO_SEND (message (sp ?r)) (sp_update (\<lambda>d. d\<lparr>cycles := - 1\<rparr>) ?r))"
    using sync_fallback_immediate [of ?r 0 "[]"] r by blast
  have d: "synchronizeSound state_muted = Some state_muted"
    using sync_fallback_immediate [of state_muted 0 "[]"] m by blast
  show ?thesis
    unfolding a b c d using w(1)
    by (simp add: FIFO_SEND_def MAX_FIFOS_WAITING_def state_wait_def sp_def sp_update_def
        state0_defs)
qed

subsection \<open>refresh as a run of register writes\<close>

lemma handle_gameboy:
  assumes "handleSoundRegister K r v s = Some s'"
  shows "gameboy s' = gameboy s"
proof -
  from pres_config_handle [of "config s" K r v] assms have "config s' = config s"
    unfolding pres_def by blast
  then show ?thesis by (simp add: config_def)
qed

lemma run_append: "run K (xs @ ys) s = run K xs s \<bind> run K ys"
proof (induction xs arbitrary: s)
  case Nil
  then show ?case by simp
next
  case (Cons x xs)
  have "run K ((x # xs) @ ys) s = step K x s \<bind> (\<lambda>t. run K xs t \<bind> run K ys)"
    by (simp add: Cons.IH cong: Option.bind_cong)
  then show ?case by simp
qed

lemma bind_run_Nil [simp]: "m \<bind> run K [] = m"
  by (cases m) simp_all

lemma agrees_Nil: "agrees K g (block []) []"
  by (simp add: agrees_def)

lemma agrees_skip: "agrees K g Some []"
  by (simp add: agrees_def)

lemma agrees_handle: "agrees K g (handleSoundRegister K r v) [Write r v]"
  by (simp add: agrees_def handle_gameboy)

lemma agrees_seq:
  assumes "agrees K g f xs" "agrees K g h ys"
  shows "agrees K g (\<lambda>s. f s \<bind> h) (xs @ ys)"
  unfolding agrees_def
proof (intro allI impI)
  fix t :: state
  assume g: "gameboy t = g"
  with assms(1) have f: "f t = run K xs t" "\<And>t'. f t = Some t' \<Longrightarrow> gameboy t' = g"
    unfolding agrees_def by blast+
  have "f t \<bind> h = f t \<bind> run K ys"
  proof (rule Option.bind_cong [OF refl])
    fix t'
    assume "f t = Some t'"
    from f(2) [OF this] assms(2) show "h t' = run K ys t'" unfolding agrees_def by blast
  qed
  then have a: "f t \<bind> h = run K (xs @ ys) t" by (simp add: run_append f(1))
  have b: "gameboy t' = g" if "f t \<bind> h = Some t'" for t'
  proof -
    from that obtain t1 where 1: "f t = Some t1" and 2: "h t1 = Some t'"
      by (auto simp: bind_eq_Some_conv)
    from f(2) [OF 1] assms(2) 2 show ?thesis unfolding agrees_def by blast
  qed
  from a b show "f t \<bind> h = run K (xs @ ys) t \<and> (\<forall>t'. f t \<bind> h = Some t' \<longrightarrow> gameboy t' = g)"
    by blast
qed

lemma agrees_block_Cons:
  assumes "agrees K g f xs" "agrees K g (block fs) ys"
  shows "agrees K g (block (f # fs)) (xs @ ys)"
proof -
  have e: "block (f # fs) = (\<lambda>s. f s \<bind> block fs)" by (simp add: fun_eq_iff)
  show ?thesis unfolding e by (rule agrees_seq [OF assms])
qed

lemma agrees_reads:
  assumes e: "\<And>t. gameboy t = g \<Longrightarrow> f t = h t" and a: "agrees K g h xs"
  shows "agrees K g f xs"
  unfolding agrees_def
proof (intro allI impI)
  fix t :: state
  assume g: "gameboy t = g"
  from a g have "h t = run K xs t \<and> (\<forall>t'. h t = Some t' \<longrightarrow> gameboy t' = g)"
    unfolding agrees_def by blast
  then show "f t = run K xs t \<and> (\<forall>t'. f t = Some t' \<longrightarrow> gameboy t' = g)"
    unfolding e [OF g] .
qed

lemma agrees_replay_reg:
  "agrees K g (replay_reg K i) (replay_ops g [i])"
proof -
  let ?v = "if triggerReg i then readIO g (unat i) AND NOT 0x80 else readIO g (unat i)"
  have "agrees K g (replay_reg K i) [Write i ?v]"
    by (rule agrees_reads [where h = "handleSoundRegister K i ?v"])
       (simp_all add: replay_reg_def agrees_handle)
  then show ?thesis by (simp add: replay_ops_def)
qed

lemma replay_ops_Cons: "replay_ops g (i # rs) = replay_ops g [i] @ replay_ops g rs"
  by (simp add: replay_ops_def)

lemma agrees_replay: "agrees K g (replay K rs) (replay_ops g rs)"
proof (induction rs)
  case Nil
  have e: "replay K [] = Some" by (simp add: fun_eq_iff)
  show ?case unfolding e replay_ops_def by (simp add: agrees_skip)
next
  case (Cons i rs)
  have e: "replay K (i # rs) = (\<lambda>s. replay_reg K i s \<bind> replay K rs)"
    by (simp add: fun_eq_iff)
  show ?case unfolding e replay_ops_Cons [of g i rs]
    by (rule agrees_seq [OF agrees_replay_reg Cons.IH])
qed

lemma agrees_retrigger:
  "agrees K g (retrigger K m r)
     (if readIO g 0x26 AND m \<noteq> 0 then [Write r (readIO g (unat r) OR 0x80)] else [])"
proof (cases "readIO g 0x26 AND m \<noteq> 0")
  case True
  have "agrees K g (retrigger K m r) [Write r (readIO g (unat r) OR 0x80)]"
    by (rule agrees_reads [where h = "handleSoundRegister K r (readIO g (unat r) OR 0x80)"])
       (simp_all add: retrigger_def agrees_handle True)
  with True show ?thesis by simp
next
  case False
  have "agrees K g (retrigger K m r) []"
    by (rule agrees_reads [where h = Some]) (simp_all add: retrigger_def agrees_skip False)
  with False show ?thesis by simp
qed

lemma retrigger_ops_unfold:
  "retrigger_ops g =
     (if readIO g 0x26 AND 1 \<noteq> 0 then [Write 0x14 (readIO g (unat (0x14 :: u8)) OR 0x80)] else []) @
     (if readIO g 0x26 AND 2 \<noteq> 0 then [Write 0x19 (readIO g (unat (0x19 :: u8)) OR 0x80)] else []) @
     (if readIO g 0x26 AND 4 \<noteq> 0 then [Write 0x1e (readIO g (unat (0x1e :: u8)) OR 0x80)] else []) @
     (if readIO g 0x26 AND 8 \<noteq> 0 then [Write 0x23 (readIO g (unat (0x23 :: u8)) OR 0x80)] else []) @ []"
  by (simp add: retrigger_ops_def chanMask_def trigReg_def CHAN_1_def CHAN_2_def CHAN_3_def
      CHAN_4_def)

lemma agrees_resync:
  "agrees K g (block
          [(\<lambda>s. handleSoundRegister K 0x26 (readIO (gameboy s) 0x26) s),
           replay K soundRegs,
           retrigger K 1 0x14,
           retrigger K 2 0x19,
           retrigger K 4 0x1e,
           retrigger K 8 0x23]) (resync_ops g)"
proof -
  have a: "agrees K g (\<lambda>s. handleSoundRegister K 0x26 (readIO (gameboy s) 0x26) s)
      [Write 0x26 (readIO g 0x26)]"
    by (rule agrees_reads [where h = "handleSoundRegister K 0x26 (readIO g 0x26)"])
       (simp_all add: agrees_handle)
  have b: "resync_ops g = [Write 0x26 (readIO g 0x26)] @ replay_ops g soundRegs @ retrigger_ops g"
    by (simp add: resync_ops_def)
  show ?thesis
    unfolding b retrigger_ops_unfold
    by (intro agrees_block_Cons a agrees_replay agrees_retrigger agrees_Nil)
qed

lemma unmute_fields [simp]:
  "soundDisabled (unmute s) = soundDisabled s" "gameboy (unmute s) = gameboy s"
  "muted (unmute s) = False" "sharedPtr (unmute s) = PtrSharedData"
  "locals (unmute s) = locals s" "sharedData (unmute s) = sharedData s"
  by (simp_all add: unmute_def locals_def)

lemma refresh_disabled: "soundDisabled s \<Longrightarrow> refresh K s = Some (unmute s)"
  by (simp add: refresh_def lift_def ite_def)

lemma refresh_run:
  assumes "\<not> soundDisabled s"
  shows "refresh K s = run K (resync_ops (gameboy s))
     (sp_update (\<lambda>d. d\<lparr>sampleData_sd := sampleData_cached K, chanOn := 0\<rparr>) (unmute s))"
proof -
  let ?t = "sp_update (\<lambda>d. d\<lparr>sampleData_sd := sampleData_cached K, chanOn := 0\<rparr>) (unmute s)"
  have g: "gameboy ?t = gameboy s"
    by (simp add: sp_update_def split: shared_ref.splits)
  have "refresh K s = block
          [(\<lambda>s. handleSoundRegister K 0x26 (readIO (gameboy s) 0x26) s),
           replay K soundRegs,
           retrigger K 1 0x14,
           retrigger K 2 0x19,
           retrigger K 4 0x1e,
           retrigger K 8 0x23] ?t"
    using assms
    by (simp add: refresh_def lift_def ite_def sp_update_twice)
  also have "\<dots> = run K (resync_ops (gameboy s)) ?t"
    using agrees_resync [of K "gameboy s"] g unfolding agrees_def by blast
  finally show ?thesis .
qed

lemma and_not_80: "(w AND NOT 0x80) AND (0x80 :: u8) = 0"
  by (simp add: and.assoc)

lemma and_not_80': "(w AND - 129) AND (0x80 :: u8) = 0"
  using and_not_80 [of w] by simp

lemma or_80: "(w OR 0x80) AND (0x80 :: u8) \<noteq> 0"
  by (simp add: bit.conj_disj_distrib2 or_eq_0_iff)

lemma replay_no_start: "x \<in> set (replay_ops g rs) \<Longrightarrow> \<not> retriggers m x"
  by (auto simp: replay_ops_def retriggers_def starts_def triggerReg_def and_not_80'
      split: if_splits)

lemma Off_all: "Off (- 1) s \<longleftrightarrow> chanOn (sp s) = 0"
  by (simp add: Off_def)

lemma replay_stays_off:
  assumes "chanOn (sp t) = 0" "run K (Write 0x26 v # replay_ops g rs) t = Some t'"
  shows "chanOn (sp t') = 0"
proof -
  have "\<forall>x \<in> set (Write 0x26 v # replay_ops g rs). \<not> retriggers (- 1) x"
    using replay_no_start [of _ g rs "- 1"] by (auto simp: retriggers_def starts_def)
  from run_stays_off [OF _ this assms(2)] assms(1) show ?thesis by (simp add: Off_all)
qed

lemma run_writes_config:
  assumes "run K ops s = Some s'" "\<forall>x \<in> set ops. is_write x"
  shows "config s' = config s"
proof (rule run_pres [where I = "\<lambda>t. config t = config s", OF assms(1)])
  show "config s = config s" ..
  fix x
  assume "x \<in> set ops"
  with assms(2) have "is_write x" by blast
  then show "pres (\<lambda>t. config t = config s) (step K x)"
    by (cases x) (simp_all add: is_write_def pres_config_handle)
qed

lemma run_writes_total:
  assumes "Ready s" "\<forall>x \<in> set ops. is_write x"
  shows "run K ops s \<noteq> None"
  using assms
proof (induction ops arbitrary: s)
  case Nil
  then show ?case by simp
next
  case (Cons x xs)
  from Cons.prems(2) obtain r v where x: "x = Write r v"
    by (cases x) (simp_all add: is_write_def)
  from total_Ready_handle [of K r v] Cons.prems(1)
  obtain s1 where 1: "handleSoundRegister K r v s = Some s1" unfolding total_def by blast
  with pres_Ready_handle [of K r v] Cons.prems(1) have "Ready s1" unfolding pres_def by blast
  from Cons.IH [OF this] Cons.prems(2) have "run K xs s1 \<noteq> None" by simp
  with 1 x show ?case by simp
qed

lemma resync_writes: "x \<in> set (resync_ops g) \<Longrightarrow> is_write x"
  by (auto simp: resync_ops_def replay_ops_def retrigger_ops_def is_write_def split: if_splits)

lemma trigger_write_chanOn:
  assumes "i < 4" "handleSoundRegister K (trigReg i) (v OR 0x80) s = Some s'"
  shows "chanOn (sp s') = chanOn (sp s) OR
      (if i = 2 \<and> readIO (gameboy s) 0x1a AND 0x80 = 0 then 0 else chanMask i)"
proof (cases "i = 2")
  case False
  from handle_trigger_square(1) [OF assms(1) False or_80 assms(2)] False show ?thesis by simp
next
  case True
  with assms(2) have r: "reg_1E K (v OR 0x80) s = Some s'"
    by (simp add: trigReg_def handleSoundRegister_def)
  show ?thesis
  proof (cases "readIO (gameboy s) 0x1a AND 0x80 = 0")
    case True
    from reg_1E_gated(1) [OF True r] True \<open>i = 2\<close> show ?thesis by simp
  next
    case False
    from reg_1E_trigger(1) [OF or_80 False r] False \<open>i = 2\<close> show ?thesis
      by (simp add: chanMask_def)
  qed
qed

lemma chanMask_bit:
  assumes "i < 4" "j < 4"
  shows "(a OR (if c then chanMask i else 0)) AND chanMask j \<noteq> 0 \<longleftrightarrow>
     a AND chanMask j \<noteq> 0 \<or> (i = j \<and> c)"
proof (cases "i = j")
  case True
  then show ?thesis
    by (simp add: bit.conj_disj_distrib2 or_eq_0_iff chanMask_nonzero)
next
  case False
  from chanMask_distinct [OF assms(2,1)] False have "chanMask i AND chanMask j = 0" by simp
  with False show ?thesis by (simp add: bit.conj_disj_distrib2 or_eq_0_iff)
qed

lemma run_retriggers:
  assumes "\<forall>i \<in> set js. i < 4" "gameboy t = g" "j < 4"
    "run K (concat (map (\<lambda>i. if readIO g 0x26 AND chanMask i \<noteq> 0
         then [Write (trigReg i) (readIO g (unat (trigReg i)) OR 0x80)] else []) js)) t = Some t'"
  shows "chanOn (sp t') AND chanMask j \<noteq> 0 \<longleftrightarrow>
     chanOn (sp t) AND chanMask j \<noteq> 0 \<or> (j \<in> set js \<and> wanted g j)"
  using assms(1,2,4)
proof (induction js arbitrary: t)
  case Nil
  then show ?case by simp
next
  case (Cons i js)
  from Cons.prems(1) have i: "i < 4" by simp
  let ?o = "if readIO g 0x26 AND chanMask i \<noteq> 0
         then [Write (trigReg i) (readIO g (unat (trigReg i)) OR 0x80)] else []"
  from Cons.prems(3) obtain t1 where 1: "run K ?o t = Some t1" and
    2: "run K (concat (map (\<lambda>i. if readIO g 0x26 AND chanMask i \<noteq> 0
         then [Write (trigReg i) (readIO g (unat (trigReg i)) OR 0x80)] else []) js)) t1 = Some t'"
    by (auto simp: run_append bind_eq_Some_conv simp del: run.simps)
  have w: "\<forall>x \<in> set ?o. is_write x" by (simp add: is_write_def)
  from run_writes_config [OF 1 w] Cons.prems(2) have g: "gameboy t1 = g"
    by (simp add: config_def)
  have c: "chanOn (sp t1) = chanOn (sp t) OR (if wanted g i then chanMask i else 0)"
  proof (cases "readIO g 0x26 AND chanMask i \<noteq> 0")
    case True
    with 1 have "handleSoundRegister K (trigReg i) (readIO g (unat (trigReg i)) OR 0x80) t = Some t1"
      by simp
    from trigger_write_chanOn [OF i this] True Cons.prems(2) show ?thesis
      by (auto simp: wanted_def)
  next
    case False
    with 1 show ?thesis by (simp add: wanted_def)
  qed
  from Cons.IH [OF _ g 2] Cons.prems(1)
  have "chanOn (sp t') AND chanMask j \<noteq> 0 \<longleftrightarrow>
     chanOn (sp t1) AND chanMask j \<noteq> 0 \<or> (j \<in> set js \<and> wanted g j)" by simp
  also have "chanOn (sp t1) AND chanMask j \<noteq> 0 \<longleftrightarrow>
     chanOn (sp t) AND chanMask j \<noteq> 0 \<or> (i = j \<and> wanted g i)"
    unfolding c by (rule chanMask_bit [OF i assms(3)])
  finally show ?case by auto
qed

lemma refresh_channels:
  assumes "\<not> soundDisabled s" "refresh K s = Some s'" "i < 4"
  shows "chanOn (sp s') AND chanMask i \<noteq> 0 \<longleftrightarrow> wanted (gameboy s) i"
proof -
  let ?g = "gameboy s"
  let ?t = "sp_update (\<lambda>d. d\<lparr>sampleData_sd := sampleData_cached K, chanOn := 0\<rparr>) (unmute s)"
  from assms(2) refresh_run [OF assms(1), of K]
  have "run K ((Write 0x26 (readIO ?g 0x26) # replay_ops ?g soundRegs) @ retrigger_ops ?g) ?t = Some s'"
    by (simp add: resync_ops_def)
  then obtain t1 where 1: "run K (Write 0x26 (readIO ?g 0x26) # replay_ops ?g soundRegs) ?t = Some t1"
    and 2: "run K (retrigger_ops ?g) t1 = Some s'"
    unfolding run_append by (auto simp: bind_eq_Some_conv simp del: run.simps)
  have "chanOn (sp ?t) = 0" by simp
  from replay_stays_off [OF this 1] have z: "chanOn (sp t1) = 0" .
  have "\<forall>x \<in> set (Write 0x26 (readIO ?g 0x26) # replay_ops ?g soundRegs). is_write x"
    by (auto simp: replay_ops_def is_write_def)
  from run_writes_config [OF 1 this] have g: "gameboy t1 = ?g"
    by (simp add: config_def sp_update_def split: shared_ref.splits)
  have "\<forall>i \<in> set [0, 1, 2, 3 :: nat]. i < 4" by simp
  from run_retriggers [OF this g assms(3) 2 [unfolded retrigger_ops_def]] z assms(3)
  show ?thesis by auto
qed

lemma soundRegs_range: "r \<in> set soundRegs \<longleftrightarrow> 0x10 \<le> r \<and> r \<le> 0x3F"
proof -
  have s: "set soundRegs = of_nat ` {16 ..< 64}"
    unfolding soundRegs_def by (simp only: set_map set_upt)
  show ?thesis
  proof
    assume "r \<in> set soundRegs"
    with s obtain n where n: "16 \<le> n" "n < 64" "r = of_nat n" by auto
    then have "unat r = n" by (simp add: unat_of_nat)
    with n(1,2) show "0x10 \<le> r \<and> r \<le> 0x3F" by (simp add: word_le_nat_alt)
  next
    assume "0x10 \<le> r \<and> r \<le> 0x3F"
    then have "unat r \<in> {16 ..< 64}" by (simp add: word_le_nat_alt)
    then have "of_nat (unat r) \<in> set soundRegs" unfolding s by (rule imageI)
    then show "r \<in> set soundRegs" by simp
  qed
qed

lemma replay_ops_covers:
  assumes "0x10 \<le> r \<and> r \<le> 0x3F"
  shows "Write r (if triggerReg r then readIO g (unat r) AND NOT 0x80 else readIO g (unat r))
     \<in> set (replay_ops g soundRegs)"
proof -
  from assms have "r \<in> set soundRegs" by (simp add: soundRegs_range)
  then show ?thesis unfolding replay_ops_def set_map by (rule imageI)
qed

lemma retrigger_ops_only:
  assumes "Write r v \<in> set (retrigger_ops g)"
  shows "\<exists>i<4. r = trigReg i \<and> readIO g 0x26 AND chanMask i \<noteq> 0 \<and> v = readIO g (unat r) OR 0x80"
proof -
  from assms obtain i where "i \<in> {0, 1, 2, 3 :: nat}" "r = trigReg i"
    "readIO g 0x26 AND chanMask i \<noteq> 0" "v = readIO g (unat r) OR 0x80"
    by (auto simp: retrigger_ops_def split: if_splits)
  then show ?thesis by (intro exI [of _ i]) auto
qed

lemma refresh_returns:
  assumes "Ready (unmute s)"
  shows "refresh K s \<noteq> None"
proof (cases "soundDisabled s")
  case True
  then show ?thesis by (simp add: refresh_disabled)
next
  case False
  let ?t = "sp_update (\<lambda>d. d\<lparr>sampleData_sd := sampleData_cached K, chanOn := 0\<rparr>) (unmute s)"
  from assms have "Ready ?t" by (simp add: Ready_def sp_update_def sp_def)
  from run_writes_total [OF this] resync_writes show ?thesis
    unfolding refresh_run [OF False] by blast
qed

lemma master_enable_nop: "v AND 0x80 \<noteq> 0 \<Longrightarrow> handleSoundRegister K 0x26 v s = Some s"
  by (simp add: handleSoundRegister_def reg_26_def)

text \<open>C2 (as amended): a write to the master-enable register with the enable bit set
  changes nothing by itself; the bulk resynchronisation is \<open>refresh\<close>. With the sound
  subsystem disabled \<open>refresh\<close> only unmutes. Otherwise it clears the channel-on bitmask and
  is the run of these register writes: register 0x26 with its current value, every register
  of 0x10-0x3F with its current value, the trigger bit masked off for 0x14, 0x19, 0x1E and
  0x23, and then a trigger write for each channel whose on-bit is set in the current value
  of register 0x26, and for no other. No write of the replay can start a channel, and all
  channels are off when it ends. After \<open>refresh\<close> a channel is on exactly when its on-bit
  was set in register 0x26 (and, for channel 3, the DAC bit of register 0x1A is set), so a
  channel whose on-bit was clear is off. \<open>refresh\<close> returns whenever the unmuted engine is
  \<open>Ready\<close>.\<close>

theorem refresh_resync:
  "(v AND 0x80 \<noteq> 0 \<longrightarrow> handleSoundRegister K 0x26 v s = Some s) \<and>
   (soundDisabled s \<longrightarrow> refresh K s = Some (unmute s)) \<and>
   (\<not> soundDisabled s \<longrightarrow> refresh K s = run K (resync_ops (gameboy s))
      (sp_update (\<lambda>d. d\<lparr>sampleData_sd := sampleData_cached K, chanOn := 0\<rparr>) (unmute s))) \<and>
   (0x10 \<le> r \<and> r \<le> 0x3F \<longrightarrow>
      Write r (if triggerReg r then readIO g (unat r) AND NOT 0x80 else readIO g (unat r))
        \<in> set (replay_ops g soundRegs)) \<and>
   (\<forall>x \<in> set (replay_ops g rs). \<not> retriggers m x) \<and>
   (chanOn (sp t) = 0 \<and> run K (Write 0x26 (readIO g 0x26) # replay_ops g rs) t = Some t' \<longrightarrow>
      chanOn (sp t') = 0) \<and>
   (Write r' v' \<in> set (retrigger_ops g) \<longrightarrow>
      (\<exists>i<4. r' = trigReg i \<and> readIO g 0x26 AND chanMask i \<noteq> 0 \<and>
         v' = readIO g (unat r') OR 0x80)) \<and>
   (\<not> soundDisabled s \<and> refresh K s = Some s' \<and> i < 4 \<longrightarrow>
      (chanOn (sp s') AND chanMask i \<noteq> 0 \<longleftrightarrow> wanted (gameboy s) i)) \<and>
   (Ready (unmute s) \<longrightarrow> refresh K s \<noteq> None)"
proof (intro conjI impI ballI)
  show "handleSoundRegister K 0x26 v s = Some s" if "v AND 0x80 \<noteq> 0"
    using that by (rule master_enable_nop)
  show "refresh K s = Some (unmute s)" if "soundDisabled s"
    using that by (rule refresh_disabled)
  show "refresh K s = run K (resync_ops (gameboy s))
      (sp_update (\<lambda>d. d\<lparr>sampleData_sd := sampleData_cached K, chanOn := 0\<rparr>) (unmute s))"
    if "\<not> soundDisabled s"
    using that by (rule refresh_run)
  show "Write r (if triggerReg r then readIO g (unat r) AND NOT 0x80 else readIO g (unat r))
        \<in> set (replay_ops g soundRegs)" if "0x10 \<le> r \<and> r \<le> 0x3F"
    using that by (rule replay_ops_covers)
  show "\<not> retriggers m x" if "x \<in> set (replay_ops g rs)" for x
    using that by (rule replay_no_start)
  show "chanOn (sp t') = 0"
    if "chanOn (sp t) = 0 \<and> run K (Write 0x26 (readIO g 0x26) # replay_ops g rs) t = Some t'"
    using that replay_stays_off [of t K "readIO g 0x26" g rs t'] by blast
  show "\<exists>i<4. r' = trigReg i \<and> readIO g 0x26 AND chanMask i \<noteq> 0 \<and>
         v' = readIO g (unat r') OR 0x80" if "Write r' v' \<in> set (retrigger_ops g)"
    using that by (rule retrigger_ops_only)
  show "chanOn (sp s') AND chanMask i \<noteq> 0 \<longleftrightarrow> wanted (gameboy s) i"
    if "\<not> soundDisabled s \<and> refresh K s = Some s' \<and> i < 4"
    using that refresh_channels [of s K s' i] by blast
  show "refresh K s \<noteq> None" if "Ready (unmute s)"
    using that by (rule refresh_returns)
qed

theorem refresh_resync_counterexample:
  "handleSoundRegister K0 0x26 0x82 state_refresh = Some state_refresh \<and>
   readIO (gameboy state_refresh) 0x16 = 0x3F \<and>
   chanLen state_refresh 1 = 0 \<and>
   chanLen (the (handleSoundRegister K0 0x16 0x3F state_refresh)) 1 = 63 \<and>
   readIO (gameboy state_refresh) 0x26 AND CHAN_2 \<noteq> 0 \<and>
   chanOn (sp state_refresh) AND CHAN_2 = 0 \<and>
   fifo state_refresh = []"
  by (simp add: state_refresh_def eval_defs state0_defs)

theorem refresh_resync_witness:
  "Ready (unmute state_refresh) \<and> \<not> soundDisabled state_refresh \<and>
   refresh K0 state_refresh \<noteq> None \<and>
   chanOn (sp state_refresh) = 1 \<and>
   chanOn (sp (the (refresh K0 state_refresh))) AND chanMask 1 \<noteq> 0 \<and>
   chanOn (sp (the (refresh K0 state_refresh))) AND chanMask 0 = 0 \<and>
   handleSoundRegister K0 0x26 0x82 state_refresh = Some state_refresh \<and>
   Write 0x19 0x80 \<in> set (resync_ops (gameboy state_refresh)) \<and>
   Write 0x14 0x80 \<notin> set (resync_ops (gameboy state_refresh))"
proof -
  have r: "Ready (unmute state_refresh)" "\<not> soundDisabled state_refresh"
    "chanOn (sp state_refresh) = 1"
    by (simp_all add: Ready_def unmute_def state_refresh_def sp_def state0_defs)
  have w: "wanted (gameboy state_refresh) 1" "\<not> wanted (gameboy state_refresh) 0"
    by (simp_all add: wanted_def state_refresh_def chanMask_def readIO_def CHAN_1_def CHAN_2_def
        state0_defs)
  have m: "(0x82 :: u8) AND 0x80 \<noteq> 0" by simp
  note t = refresh_resync [where s = state_refresh and K = K0 and v = "0x82"]
  from t r(1) obtain s' where s': "refresh K0 state_refresh = Some s'" by blast
  from t [where s' = s' and i = 1] s' r(2) w(1)
  have a: "chanOn (sp s') AND chanMask 1 \<noteq> 0" by simp
  from t [where s' = s' and i = 0] s' r(2) w(2)
  have b: "chanOn (sp s') AND chanMask 0 = 0" by simp
  from t m have c: "handleSoundRegister K0 0x26 0x82 state_refresh = Some state_refresh"
    by blast
  have d: "Write 0x19 0x80 \<in> set (resync_ops (gameboy state_refresh))"
    "Write 0x14 0x80 \<notin> set (resync_ops (gameboy state_refresh))"
    by (simp_all add: resync_ops_def retrigger_ops_def replay_ops_def soundRegs_def
        triggerReg_def trigReg_def chanMask_def readIO_def CHAN_1_def CHAN_2_def CHAN_3_def
        CHAN_4_def state_refresh_def state0_defs)
  from r a b c d s' show ?thesis by simp
qed

subsection \<open>Register writes of a muted or disabled engine\<close>







lemma alike_refl [simp]: "alike s s"
  by (simp add: alike_def)
















lemma gameboy_sp_update [simp]: "gameboy (sp_update f s) = gameboy s"
  by (simp add: sp_update_def split: shared_ref.splits)

lemma alike_sp_update [simp]: "alike (sp_update f s) t = alike s t" "alike s (sp_update f t) = alike s t"
  by (simp_all add: alike_def)









subsection \<open>When updateSound returns\<close>

lemma wrap32_range: "- (2 ^ 31) \<le> wrap32 x" "wrap32 x < 2 ^ 31"
proof -
  have "0 \<le> (x + 2 ^ 31) mod 2 ^ 32" "(x + 2 ^ 31) mod 2 ^ 32 < (2 ^ 32 :: int)" by simp_all
  then show "- (2 ^ 31) \<le> wrap32 x" "wrap32 x < 2 ^ 31" by (simp_all add: wrap32_def)
qed

lemma wrap32_bounds [simp]: "- 2147483648 \<le> wrap32 x" "wrap32 x < 2147483648"
  using wrap32_range [of x] by simp_all

lemma wrap32_mod: "wrap32 x mod 2 ^ 32 = x mod 2 ^ 32"
proof -
  have "wrap32 x mod 2 ^ 32 = ((x + 2 ^ 31) mod 2 ^ 32 - 2 ^ 31) mod 2 ^ 32"
    by (simp add: wrap32_def)
  also have "\<dots> = (x + 2 ^ 31 - 2 ^ 31) mod 2 ^ 32" by (rule mod_diff_left_eq)
  finally show ?thesis by simp
qed

lemma wrap32_id: "- (2 ^ 31) \<le> x \<Longrightarrow> x < 2 ^ 31 \<Longrightarrow> wrap32 x = x"
  by (simp add: wrap32_def)

lemma wrap32_add_mod: "(a * (wrap32 x + p)) mod 2 ^ 32 = (a * (x + p)) mod 2 ^ 32"
proof -
  have e: "(wrap32 x + p) mod 2 ^ 32 = (x + p) mod 2 ^ 32"
    by (rule mod_add_cong [OF wrap32_mod refl])
  show ?thesis by (rule mod_mult_cong [OF refl e])
qed

lemma sweepPeriod_bounds:
  assumes "fits K" "1 \<le> t" "t \<le> 7" "sweepPeriod K t = Some p"
  shows "0 < p" "p < 2 ^ 31"
proof -
  define d where "d = 128 div t"
  from assms(2,3) have d0: "0 < d" unfolding d_def using pos_imp_zdiv_pos_iff [of t 128] by simp
  from assms(2) have "128 div t \<le> 128 div 1" by (intro zdiv_mono2) simp_all
  then have d1: "d \<le> 128" by (simp add: d_def)
  from assms(2,4) d0 have p: "p = clockSpeed K div d"
    using assms(1) by (simp add: sweepPeriod_def c_div_def d_def fits_def split: if_splits)
  from assms(1) d0 d1 show "0 < p" unfolding p using pos_imp_zdiv_pos_iff [of d "clockSpeed K"]
    by (simp add: fits_def)
  from assms(1) d0 have "clockSpeed K div d \<le> clockSpeed K div 1"
    by (intro zdiv_mono2) (simp_all add: fits_def)
  with assms(1) show "p < 2 ^ 31" unfolding p by (simp add: fits_def)
qed

lemma half_turn:
  assumes "(2 * x) mod 2 ^ 32 = 0" "0 < x" "x < (2 ^ 32 :: int)"
  shows "x = 2 ^ 31"
proof -
  from assms(1) have "(2 ^ 32 :: int) dvd 2 * x" by (simp add: dvd_eq_mod_eq_0)
  then obtain q where q: "2 * x = 2 ^ 32 * q" by (auto simp: dvd_def)
  with assms(2,3) have "0 < q" "q < 2" by simp_all
  then have "q = 1" by simp
  with q show ?thesis by simp
qed

lemma doubling_hits:
  assumes "(d :: int) mod 2 ^ 32 \<noteq> 0"
  shows "\<exists>n. (2 ^ n * d) mod 2 ^ 32 = 2 ^ 31"
proof -
  have "(2 ^ k * d) mod 2 ^ 32 = 0 \<Longrightarrow> \<exists>n. (2 ^ n * d) mod 2 ^ 32 = 2 ^ 31" for k
  proof (induction k)
    case 0
    with assms show ?case by simp
  next
    case (Suc k)
    show ?case
    proof (cases "(2 ^ k * d) mod 2 ^ 32 = 0")
      case True
      then show ?thesis by (rule Suc.IH)
    next
      case False
      define x where "x = (2 ^ k * d) mod 2 ^ 32"
      have b: "0 \<le> x" "x < 2 ^ 32" by (simp_all add: x_def)
      from False have n: "x \<noteq> 0" by (simp add: x_def)
      have "(2 * x) mod 2 ^ 32 = (2 * (2 ^ k * d)) mod 2 ^ 32"
        unfolding x_def by (rule mod_mult_right_eq)
      also have "\<dots> = (2 ^ Suc k * d) mod 2 ^ 32" by (simp add: mult.assoc)
      finally have "(2 * x) mod 2 ^ 32 = 0" using Suc.prems by simp
      from half_turn [OF this] b n have "x = 2 ^ 31" by simp
      then show ?thesis unfolding x_def by blast
    qed
  qed
  from this [of 32] show ?thesis by simp
qed

lemma in_range_unique:
  assumes "(y :: int) mod 2 ^ 32 = 2 ^ 31" "- (2 ^ 31) < y" "y < 2 ^ 32"
  shows "y = 2 ^ 31"
proof (cases "0 \<le> y")
  case True
  with assms(3) have "y mod 2 ^ 32 = y" by simp
  with assms(1) show ?thesis by simp
next
  case False
  then have b: "0 \<le> y + 2 ^ 32" "y + 2 ^ 32 < 2 ^ 32" using assms(2) by simp_all
  have "y mod 2 ^ 32 = (y + 2 ^ 32) mod 2 ^ 32" by simp
  also have "\<dots> = y + 2 ^ 32" by (rule mod_pos_pos_trivial [OF b])
  finally have "y + 2 ^ 32 = 2 ^ 31" using assms(1) by simp
  with assms(2) show ?thesis by simp
qed

lemma sweep_body_counter:
  assumes "sweep_body K s = Some t"
  shows "chan1SweepTime t = chan1SweepTime s"
    and "\<exists>p. sweepPeriod K (chan1SweepTime s) = Some p \<and>
           chan1SweepCounter t = wrap32 (chan1SweepCounter s + (p + chan1SweepCounter s))"
proof -
  from sweep_body_Some [OF assms] obtain p where p: "sweepPeriod K (chan1SweepTime s) = Some p"
    and c: "if sweep_next s > 0x7FF
        then t = clearSoundChannel CHAN_1 (sp_update (\<lambda>d. d\<lparr>chanOn := chanOn d AND NOT CHAN_1\<rparr>)
                  (s\<lparr>chan1SweepCounter := wrap32 (chan1SweepCounter s + (p + chan1SweepCounter s)),
                  chanFreq := (chanFreq s)(0 := sweep_next s)\<rparr>))
        else refreshSoundFreq 0 (s\<lparr>chan1SweepCounter := wrap32 (chan1SweepCounter s + (p + chan1SweepCounter s)),
                  chanFreq := (chanFreq s)(0 := sweep_next s)\<rparr>) = Some t"
    unfolding Let_def by blast
  have "chan1SweepTime t = chan1SweepTime s \<and>
    chan1SweepCounter t = wrap32 (chan1SweepCounter s + (p + chan1SweepCounter s))"
  proof (cases "sweep_next s > 0x7FF")
    case True
    with c show ?thesis by (simp add: clearSoundChannel_def)
  next
    case False
    with c have r: "refreshSoundFreq 0 (s\<lparr>chan1SweepCounter := wrap32 (chan1SweepCounter s + (p + chan1SweepCounter s)),
                  chanFreq := (chanFreq s)(0 := sweep_next s)\<rparr>) = Some t" by simp
    from view_fields(4,5) [OF framesD [OF frames_refreshSoundFreq r]] show ?thesis by simp
  qed
  with p show "chan1SweepTime t = chan1SweepTime s"
    and "\<exists>p. sweepPeriod K (chan1SweepTime s) = Some p \<and>
           chan1SweepCounter t = wrap32 (chan1SweepCounter s + (p + chan1SweepCounter s))"
    by simp_all
qed

lemma sweep_loop_returns:
  assumes "sweepPeriod K (chan1SweepTime s) = Some p" "0 < p" "p < 2 ^ 31"
    "1 \<le> chan1SweepTime s" "chan1SweepTime s \<le> 128"
    "- (2 ^ 31) \<le> chan1SweepCounter s" "chan1SweepCounter s < 2 ^ 31"
    "(2 ^ n * (chan1SweepCounter s + p)) mod 2 ^ 32 = 2 ^ 31"
  shows "sweep_loop K s ch \<noteq> None"
  using assms
proof (induction n arbitrary: s ch)
  case 0
  from "0.prems"(8) have "(chan1SweepCounter s + p) mod 2 ^ 32 = 2 ^ 31" by simp
  from in_range_unique [OF this] "0.prems"(2,3,6,7) have "chan1SweepCounter s + p = 2 ^ 31" by simp
  with "0.prems"(3) have "0 < chan1SweepCounter s" by simp
  then show ?case by (subst sweep_loop.simps) simp
next
  case (Suc n)
  show ?case
  proof (cases "chan1SweepCounter s \<le> 0")
    case False
    then show ?thesis by (subst sweep_loop.simps) simp
  next
    case True
    from sweep_body_returns [OF Suc.prems(4,5), of K] obtain t where t: "sweep_body K s = Some t"
      by auto
    from sweep_body_counter [OF t] Suc.prems(1)
    have tt: "chan1SweepTime t = chan1SweepTime s"
      and tc: "chan1SweepCounter t = wrap32 (chan1SweepCounter s + (p + chan1SweepCounter s))"
      by simp_all
    have "(2 ^ n * (chan1SweepCounter t + p)) mod 2 ^ 32 =
        (2 ^ n * (chan1SweepCounter s + (p + chan1SweepCounter s) + p)) mod 2 ^ 32"
      unfolding tc by (rule wrap32_add_mod)
    also have "chan1SweepCounter s + (p + chan1SweepCounter s) + p = 2 * (chan1SweepCounter s + p)"
      by simp
    also have "2 ^ n * (2 * (chan1SweepCounter s + p)) = 2 ^ Suc n * (chan1SweepCounter s + p)"
      by simp
    finally have m: "(2 ^ n * (chan1SweepCounter t + p)) mod 2 ^ 32 = 2 ^ 31"
      using Suc.prems(8) by simp
    have "sweep_loop K t True \<noteq> None"
      by (rule Suc.IH [OF _ Suc.prems(2,3) _ _ _ _ m])
         (simp_all add: tt tc Suc.prems wrap32_range)
    with t True show ?thesis by (subst sweep_loop.simps) auto
  qed
qed

lemma sweep_pass_returns:
  assumes "fits K" "0 \<le> chan1SweepTime s" "chan1SweepTime s \<le> 7" "\<not> soundDisabled s"
    "\<not> stalls K cyc s"
  shows "sweep_pass K cyc s ch \<noteq> None"
proof (cases "chanOn (sp s) AND CHAN_1 \<noteq> 0 \<and> chan1SweepTime s \<noteq> 0")
  case False
  then show ?thesis by (auto simp: sweep_pass_def)
next
  case True
  with assms(2,3) have t: "1 \<le> chan1SweepTime s" "chan1SweepTime s \<le> 128" by simp_all
  from sweepPeriod_Some [OF t, of K] obtain p where p: "sweepPeriod K (chan1SweepTime s) = Some p"
    by auto
  note b = sweepPeriod_bounds [OF assms(1) t(1) assms(3) p]
  let ?s = "s\<lparr>chan1SweepCounter := wrap32 (chan1SweepCounter s - cyc)\<rparr>"
  from assms(4,5) True p have "(chan1SweepCounter s - cyc + p) mod 2 ^ 32 \<noteq> 0"
    by (simp add: stalls_def)
  moreover have "(1 * (wrap32 (chan1SweepCounter s - cyc) + p)) mod 2 ^ 32 =
      (1 * (chan1SweepCounter s - cyc + p)) mod 2 ^ 32" by (rule wrap32_add_mod)
  ultimately have "(wrap32 (chan1SweepCounter s - cyc) + p) mod 2 ^ 32 \<noteq> 0" by simp
  from doubling_hits [OF this] obtain n where
    n: "(2 ^ n * (wrap32 (chan1SweepCounter s - cyc) + p)) mod 2 ^ 32 = 2 ^ 31" by blast
  have "sweep_loop K ?s ch \<noteq> None"
  proof (rule sweep_loop_returns [where p = p and n = n])
    show "sweepPeriod K (chan1SweepTime ?s) = Some p" using p by simp
    show "0 < p" "p < 2 ^ 31" by (rule b)+
    show "1 \<le> chan1SweepTime ?s" "chan1SweepTime ?s \<le> 128" using t by simp_all
    show "- (2 ^ 31) \<le> chan1SweepCounter ?s" "chan1SweepCounter ?s < 2 ^ 31" by simp_all
    show "(2 ^ n * (chan1SweepCounter ?s + p)) mod 2 ^ 32 = 2 ^ 31" using n by simp
  qed
  with True show ?thesis by (auto simp: sweep_pass_def)
qed

lemma sweep_loop_spins:
  assumes "sweep_loop K s ch = Some r" "sweepPeriod K (chan1SweepTime s) = Some p"
    "0 < p" "p < 2 ^ 31" "chan1SweepCounter s = - p"
  shows False
  using assms
proof (induction rule: sweep_loop.raw_induct [rotated 1, consumes 1])
  case (1 f K s ch r)
  from "1"(4,6) have "chan1SweepCounter s \<le> 0" by simp
  with "1"(2) obtain t where b: "sweep_body K s = Some t" and l: "f K t True = Some r"
    by (auto simp: bind_eq_Some_conv)
  from sweep_body_counter [OF b] "1"(3)
  have tt: "chan1SweepTime t = chan1SweepTime s"
    and tc: "chan1SweepCounter t = wrap32 (chan1SweepCounter s + (p + chan1SweepCounter s))"
    by simp_all
  from "1"(4,5,6) have "chan1SweepCounter t = - p" unfolding tc by (simp add: wrap32_id)
  from "1"(1) [OF l _ "1"(4,5) this] "1"(3) tt show ?case by simp
qed

lemma congruent_in_range:
  assumes "(a :: int) mod 2 ^ 32 = b mod 2 ^ 32" "- (2 ^ 31) \<le> a" "a < 2 ^ 31"
    "- (2 ^ 31) \<le> b" "b < 2 ^ 31"
  shows "a = b"
proof -
  from assms(1) have "(2 ^ 32 :: int) dvd a - b" by (simp add: mod_eq_dvd_iff)
  then obtain q where q: "a - b = 2 ^ 32 * q" by (auto simp: dvd_def)
  with assms(2-5) have "- 1 < q" "q < 1" by simp_all
  then have "q = 0" by simp
  with q show ?thesis by simp
qed

lemma sweep_pass_spins:
  assumes "fits K" "0 \<le> chan1SweepTime s" "chan1SweepTime s \<le> 7" "stalls K cyc s"
  shows "sweep_pass K cyc s ch = None"
proof -
  from assms(4) obtain p where on: "chanOn (sp s) AND CHAN_1 \<noteq> 0 \<and> chan1SweepTime s \<noteq> 0"
    and p: "sweepPeriod K (chan1SweepTime s) = Some p"
    and m: "(chan1SweepCounter s - cyc + p) mod 2 ^ 32 = 0"
    by (auto simp: stalls_def split: option.splits)
  from on assms(2) have t: "1 \<le> chan1SweepTime s" by simp
  note b = sweepPeriod_bounds [OF assms(1) t assms(3) p]
  let ?s = "s\<lparr>chan1SweepCounter := wrap32 (chan1SweepCounter s - cyc)\<rparr>"
  have "(chan1SweepCounter s - cyc) mod 2 ^ 32 = (- p) mod 2 ^ 32"
  proof -
    from m have "(2 ^ 32 :: int) dvd chan1SweepCounter s - cyc + p" by (simp add: dvd_eq_mod_eq_0)
    then have "(2 ^ 32 :: int) dvd (chan1SweepCounter s - cyc) - (- p)" by simp
    then show ?thesis by (simp only: mod_eq_dvd_iff)
  qed
  then have "wrap32 (chan1SweepCounter s - cyc) mod 2 ^ 32 = (- p) mod 2 ^ 32"
    by (simp only: wrap32_mod)
  from congruent_in_range [OF this] b have c: "wrap32 (chan1SweepCounter s - cyc) = - p"
    by (simp add: wrap32_range)
  have "sweep_loop K ?s ch = None"
  proof (cases "sweep_loop K ?s ch")
    case None
    then show ?thesis .
  next
    case (Some r)
    from sweep_loop_spins [OF Some, of p] p b c show ?thesis by simp
  qed
  with on show ?thesis by (simp add: sweep_pass_def)
qed

lemma env_body_counter:
  "\<exists>t. env_body K i s = Some t \<and>
     chanEnvCounter t i = chanEnvCounter s i + c_div (chanEnvSweep s i * clockSpeed K) 64 \<and>
     chanEnvSweep t = chanEnvSweep s"
  by (simp add: env_body_def lift_def refreshSoundVolume_def Let_def)

lemma env_loop_returns:
  assumes "0 < c_div (chanEnvSweep s i * clockSpeed K) 64"
  shows "env_loop K i s ch \<noteq> None"
  using assms
proof (induction "nat (1 - chanEnvCounter s i)" arbitrary: s ch rule: less_induct)
  case less
  show ?case
  proof (cases "chanEnvCounter s i \<le> 0")
    case False
    then show ?thesis by (subst env_loop.simps) simp
  next
    case True
    from env_body_counter [of K i s] obtain t where t: "env_body K i s = Some t"
      and c: "chanEnvCounter t i = chanEnvCounter s i + c_div (chanEnvSweep s i * clockSpeed K) 64"
      and e: "chanEnvSweep t = chanEnvSweep s" by blast
    from c True less.prems have "nat (1 - chanEnvCounter t i) < nat (1 - chanEnvCounter s i)"
      by simp
    from less.hyps [OF this, of True] less.prems e have "env_loop K i t True \<noteq> None" by simp
    with t True show ?thesis by (subst env_loop.simps) auto
  qed
qed

lemma env_period_positive:
  assumes "fits K" "1 \<le> e"
  shows "0 < c_div (e * clockSpeed K) 64"
proof -
  from assms have c: "64 \<le> clockSpeed K" "0 \<le> clockSpeed K" by (simp_all add: fits_def)
  have "1 * clockSpeed K \<le> e * clockSpeed K" by (rule mult_right_mono [OF assms(2) c(2)])
  then have "clockSpeed K \<le> e * clockSpeed K" by (simp only: mult_1)
  with c(1) have "64 \<le> e * clockSpeed K" by (rule order_trans)
  then have "0 < (e * clockSpeed K) div 64" using pos_imp_zdiv_pos_iff [of 64 "e * clockSpeed K"]
    by simp
  with \<open>64 \<le> e * clockSpeed K\<close> show ?thesis by (simp add: c_div_def)
qed

lemma env_chan_returns:
  assumes "fits K" "0 \<le> chanEnvSweep s i"
  shows "env_chan K cyc i s ch \<noteq> None"
proof (cases "(i \<noteq> 2 \<and> chanOn (sp s) AND push_bit i 1 \<noteq> 0) \<and> chanEnvSweep s i \<noteq> 0")
  case False
  then show ?thesis by (auto simp: env_chan_def)
next
  case True
  with assms(2) have "1 \<le> chanEnvSweep s i" by simp
  from env_period_positive [OF assms(1) this]
  have "env_loop K i (s\<lparr>chanEnvCounter := (chanEnvCounter s)(i := chanEnvCounter s i - cyc)\<rparr>) ch \<noteq> None"
    by (intro env_loop_returns) simp
  with True show ?thesis by (auto simp: env_chan_def)
qed

lemma view_envs: "view s' = view s \<Longrightarrow> envs_ok s \<Longrightarrow> envs_ok s'"
  by (simp add: view_def envs_ok_def locals_def)

lemma pres_envs_prims:
  "pres envs_ok (sendStartMessage K j)" "pres envs_ok (sendUpdateMessage K j)"
  "pres envs_ok (sendGlobalVolumeMessage K)" "pres envs_ok (refreshSoundFreq i)"
  "pres envs_ok (refreshSoundVolume K i send)"
  by (rule pres_prims [of envs_ok], erule view_envs, assumption)+

lemma pres_envs_sweepReload: "pres envs_ok (sweepReload K)"
  by (rule pres_sweepReload) (simp add: envs_ok_def setSoundEventCycles_def)

lemma pres_envs_handle: "pres envs_ok (handleSoundRegister K r v)"
  unfolding handleSoundRegister_def reg_defs
  by (intro pres_rules pres_envs_prims pres_envs_sweepReload)
     (simp_all add: envs_ok_def pure_defs Let_def)

lemma pres_envs_sweep_body: "pres envs_ok (sweep_body K)"
  unfolding sweep_body_def
  by (intro pres_rules pres_envs_prims pres_sweep_tick) (simp_all add: envs_ok_def pure_defs)

lemma pres_envs_env_body: "pres envs_ok (env_body K i)"
  unfolding env_body_def
  by (intro pres_rules pres_envs_prims) (simp_all add: envs_ok_def)

lemma envs_ok_FIFO_SEND: "envs_ok s \<Longrightarrow> envs_ok (FIFO_SEND m s)"
  using view_envs [of "FIFO_SEND m s" s] by simp

lemma Ready_FIFO_SEND: "Ready s \<Longrightarrow> Ready (FIFO_SEND m s)"
  using view_Ready [of "FIFO_SEND m s" s] by simp

lemma pres_Ready_sweep_body: "pres Ready (sweep_body K)"
  unfolding sweep_body_def
  by (intro pres_rules pres_Ready_prims pres_sweep_tick) (simp_all add: Ready_def pure_defs)

lemma pres_Ready_env_body: "pres Ready (env_body K i)"
  unfolding env_body_def
  by (intro pres_rules pres_Ready_prims) (simp_all add: Ready_def)

lemma sweep_pass_envs:
  "sweep_pass K cyc s ch = Some r \<Longrightarrow> envs_ok s \<Longrightarrow> envs_ok (fst r)"
  by (erule sweep_pass_pres, assumption, rule pres_envs_sweep_body)
     (simp_all add: envs_ok_def setSoundEventCycles_def)

lemma sweep_pass_Ready:
  "sweep_pass K cyc s ch = Some r \<Longrightarrow> Ready s \<Longrightarrow> Ready (fst r)"
  by (erule sweep_pass_pres, assumption, rule pres_Ready_sweep_body)
     (simp_all add: Ready_def setSoundEventCycles_def)

lemma env_chan_envs:
  "env_chan K cyc i s ch = Some r \<Longrightarrow> envs_ok s \<Longrightarrow> envs_ok (fst r)"
  by (erule env_chan_pres, assumption, rule pres_envs_env_body)
     (simp_all add: envs_ok_def setSoundEventCycles_def)

lemma env_chan_Ready:
  "env_chan K cyc i s ch = Some r \<Longrightarrow> Ready s \<Longrightarrow> Ready (fst r)"
  by (erule env_chan_pres, assumption, rule pres_Ready_env_body)
     (simp_all add: Ready_def setSoundEventCycles_def)

lemma len_chan_envs: "envs_ok s \<Longrightarrow> envs_ok (fst (len_chan cyc i s ch))"
  by (simp add: len_chan_def envs_ok_def Let_def pure_defs)

lemma len_chan_Ready: "Ready s \<Longrightarrow> Ready (fst (len_chan cyc i s ch))"
  by (simp add: len_chan_def Ready_def Let_def pure_defs)

lemma pres_envs_updateSound: "pres envs_ok (updateSound K cyc)"
  by (rule updateSound_pres)
     (erule sweep_pass_envs, assumption, erule env_chan_envs, assumption, erule len_chan_envs,
      rule pres_envs_prims, erule envs_ok_FIFO_SEND)

lemma pres_Ready_updateSound: "pres Ready (updateSound K cyc)"
  by (rule updateSound_pres)
     (erule sweep_pass_Ready, assumption, erule env_chan_Ready, assumption, erule len_chan_Ready,
      rule pres_Ready_prims, erule Ready_FIFO_SEND)

lemma pres_Sane:
  assumes "pres Ready f" "pres envs_ok f"
  shows "pres Sane f"
  using assms unfolding pres_def Sane_def by blast

lemma pres_Sane_step: "pres Sane (step K x)"
  by (cases x)
     (simp_all add: pres_Sane pres_Ready_updateSound pres_envs_updateSound pres_Ready_handle
        pres_envs_handle)

lemma env_pass_returns:
  assumes "fits K" "envs_ok s"
  shows "env_pass K cyc is s ch \<noteq> None"
  using assms(2)
proof (induction "is" arbitrary: s ch)
  case Nil
  then show ?case by simp
next
  case (Cons i "is")
  from Cons.prems have "0 \<le> chanEnvSweep s i" by (simp add: envs_ok_def)
  from env_chan_returns [OF assms(1) this, of cyc ch] obtain r where
    r: "env_chan K cyc i s ch = Some r" by auto
  from env_chan_envs [OF r Cons.prems] have "envs_ok (fst r)" .
  from Cons.IH [OF this, of "snd r"] r show ?case by (simp add: case_prod_beta)
qed

lemma notifyChanged_returns: "Ready s \<Longrightarrow> notifyChanged K s c \<noteq> None"
  using total_sync(2) [of K "- 1"] unfolding total_def notifyChanged_def by simp

lemma updateSound_returns:
  assumes "fits K" "Sane s" "\<not> stalls K cyc s"
  shows "updateSound K cyc s \<noteq> None"
proof (cases "soundDisabled s")
  case True
  then show ?thesis by (simp add: updateSound_def)
next
  case False
  from assms(2) have r: "Ready s" and e: "envs_ok s" by (simp_all add: Sane_def)
  from r have "0 \<le> chan1SweepTime s" "chan1SweepTime s \<le> 7" by (simp_all add: Ready_def)
  from sweep_pass_returns [OF assms(1) this False assms(3), of False] obtain r1 where
    1: "sweep_pass K cyc s False = Some r1" by auto
  note r1 = sweep_pass_Ready [OF 1 r] and e1 = sweep_pass_envs [OF 1 e]
  from env_pass_returns [OF assms(1) e1, of cyc "[0, 1, 2, 3]" "snd r1"] obtain r2 where
    2: "env_pass K cyc [0, 1, 2, 3] (fst r1) (snd r1) = Some r2" by auto
  have lt: "\<forall>i \<in> set [0, 1, 2, 3]. i < (4 :: nat)" by simp
  have r2: "Ready (fst r2)"
    by (rule env_pass_pres [where I = Ready and n = 4, OF 2 r1 lt]) (rule env_chan_Ready)
  have r3: "Ready (fst (len_pass cyc [0, 1, 2, 3] (fst r2) (snd r2)))"
    by (rule len_pass_pres [where I = Ready and n = 4, OF r2 lt]) (rule len_chan_Ready)
  from notifyChanged_returns [OF r3]
  have "notifyChanged K (fst (len_pass cyc [0, 1, 2, 3] (fst r2) (snd r2)))
       (snd (len_pass cyc [0, 1, 2, 3] (fst r2) (snd r2))) \<noteq> None" .
  with False 1 2 show ?thesis
    unfolding updateSound_def by (simp add: case_prod_beta del: env_pass.simps len_pass.simps)
qed

lemma updateSound_spins:
  assumes "fits K" "Sane s" "stalls K cyc s"
  shows "updateSound K cyc s = None"
proof -
  from assms(2) have "0 \<le> chan1SweepTime s" "chan1SweepTime s \<le> 7"
    by (simp_all add: Sane_def Ready_def)
  from sweep_pass_spins [OF assms(1) this assms(3)] assms(3) show ?thesis
    by (simp add: updateSound_def stalls_def)
qed

lemma run_returns:
  assumes "fits K" "Sane s" "run K ops s = None"
  shows "\<exists>xs c ys t. ops = xs @ Advance c # ys \<and> run K xs s = Some t \<and> stalls K c t"
  using assms(2,3)
proof (induction ops arbitrary: s)
  case Nil
  then show ?case by simp
next
  case (Cons x ops)
  show ?case
  proof (cases "step K x s")
    case None
    have "\<exists>c. x = Advance c \<and> stalls K c s"
    proof (cases x)
      case (Advance c)
      with None updateSound_returns [OF assms(1) Cons.prems(1), of c] show ?thesis by auto
    next
      case (Write r v)
      from Cons.prems(1) have "Ready s" by (simp add: Sane_def)
      with total_Ready_handle [of K r v] have "handleSoundRegister K r v s \<noteq> None"
        unfolding total_def by blast
      with None Write show ?thesis by simp
    qed
    then obtain c where "x = Advance c" "stalls K c s" by blast
    then have "x # ops = [] @ Advance c # ops \<and> run K [] s = Some s \<and> stalls K c s" by simp
    then show ?thesis by blast
  next
    case (Some s1)
    with pres_Sane_step [of K x] Cons.prems(1) have "Sane s1" unfolding pres_def by blast
    from Some Cons.prems(2) have "run K ops s1 = None" by simp
    from Cons.IH [OF \<open>Sane s1\<close> this] obtain xs c ys t where
      "ops = xs @ Advance c # ys" "run K xs s1 = Some t" "stalls K c t" by blast
    with Some have "x # ops = (x # xs) @ Advance c # ys \<and> run K (x # xs) s = Some t \<and> stalls K c t"
      by simp
    then show ?thesis by blast
  qed
qed

lemma run_spins:
  assumes "fits K" "Sane s" "run K xs s = Some t" "stalls K c t"
  shows "run K (xs @ Advance c # ys) s = None"
proof -
  have "Sane t"
    by (rule run_pres [where I = Sane, OF assms(3,2)]) (rule pres_Sane_step)
  from updateSound_spins [OF assms(1) this assms(4)] assms(3) show ?thesis
    by (simp add: run_append)
qed

end
